theory Spec2Isabelle
  imports Main "HOL-Library.Char_ord" "HOL-Library.List_Lexorder" "HOL-Library.Multiset"
begin

text \<open>
  The page pipeline of the PPT/PDF translator: the natural order key of file names
  (pdf\_generator.py), the geometry normalizer (qwen\_vl\_utils.py), the detection response
  parser, the per-page annotator and the batch pipeline (qwen\_utils.py), the document
  assembler (pdf\_generator.py) and the command line entry (main.py), as functions over an
  explicit world (files, requests sent, lines printed). Exceptions are values: a function
  that can raise returns \<open>Inl\<close> of the exception or \<open>Inr\<close> of its result. The remote
  services, the libraries and the float arithmetic are parameters, collected in a record.
\<close>

section \<open>Exceptions and strings\<close>

text \<open>
  The exceptions the modelled code raises or catches. All of them are subclasses of
  Python's \<open>Exception\<close>; \<open>JSONDecodeError\<close> is the one \<open>json.loads\<close> raises on
  malformed text, \<open>APIError\<close> stands for a failure of a remote call, \<open>UnboundLocalError\<close>
  for a local variable read before any branch assigned it.
\<close>

datatype exn =
    ValueError | TypeError | NameError | OSError | JSONDecodeError
  | ZeroDivisionError | OverflowError | UnboundLocalError | KeyError | APIError

text \<open>
  A Python \<open>str\<close> is a sequence of code points. The model is \<^typ>\<open>string\<close>, one
  \<^typ>\<open>char\<close> per code point, which covers the code points U+0000 to U+00FF; the
  character tables below are Python's on that range, and strings compare by code point
  (the order of \<open>HOL-Library.Char_ord\<close> and \<open>List_Lexorder\<close>).
\<close>

definition code :: "char \<Rightarrow> nat" where
  "code c = of_char c"

text \<open>What the pattern \<open>\d\<close> matches and what \<open>int()\<close> reads as a digit: category Nd.\<close>

definition is_decimal :: "char \<Rightarrow> bool" where
  "is_decimal c = (48 \<le> code c \<and> code c \<le> 57)"

text \<open>
  The characters \<open>str.isdigit\<close> accepts: Numeric_Type Decimal or Digit. Below U+0100
  these are the ten decimal digits and the superscripts U+00B2, U+00B3 and U+00B9.
\<close>

definition is_digit_char :: "char \<Rightarrow> bool" where
  "is_digit_char c = (is_decimal c \<or> code c = 178 \<or> code c = 179 \<or> code c = 185)"

definition isdigit :: "string \<Rightarrow> bool" where
  "isdigit s = (s \<noteq> [] \<and> list_all is_digit_char s)"

text \<open>\<open>str.lower\<close>: A to Z, and U+00C0 to U+00DE without U+00D7, move up by 32.\<close>

definition lower_char :: "char \<Rightarrow> char" where
  "lower_char c =
     (if (65 \<le> code c \<and> code c \<le> 90) \<or> (192 \<le> code c \<and> code c \<le> 222 \<and> code c \<noteq> 215)
      then char_of (code c + 32) else c)"

definition lower :: "string \<Rightarrow> string" where
  "lower s = map lower_char s"

text \<open>\<open>str.isspace\<close> on one character; \<open>str.strip()\<close> removes these.\<close>

definition is_space :: "char \<Rightarrow> bool" where
  "is_space c = ((9 \<le> code c \<and> code c \<le> 13) \<or> (28 \<le> code c \<and> code c \<le> 32)
                 \<or> code c = 133 \<or> code c = 160)"

definition strip :: "string \<Rightarrow> string" where
  "strip s = rev (dropWhile is_space (rev (dropWhile is_space s)))"

text \<open>
  The whitespace \<open>int()\<close> drops around a number: the ASCII whitespace and, of the other
  characters, those \<open>str.isspace\<close> accepts. The separators U+001C to U+001F are
  whitespace for \<open>str.strip\<close> and not for \<open>int\<close>.
\<close>

definition is_int_space :: "char \<Rightarrow> bool" where
  "is_int_space c = ((9 \<le> code c \<and> code c \<le> 13) \<or> code c = 32 \<or> code c = 133 \<or> code c = 160)"

text \<open>
  The interpreter's limit on the number of digits \<open>int()\<close> converts from a string
  (\<open>sys.int_info.default_max_str_digits\<close>; underscores are not counted).
\<close>

definition int_max_str_digits :: nat where
  "int_max_str_digits = 4300"

text \<open>
  \<open>int(s)\<close> on a string, base 10: surrounding whitespace is dropped, one sign is allowed,
  then decimal digits with single underscores between them, no more digits than the limit;
  anything else raises \<open>ValueError\<close>.
\<close>

fun after_digit :: "string \<Rightarrow> bool" where
  "after_digit [] = True"
| "after_digit (c # cs) =
     (if is_decimal c then after_digit cs
      else c = CHR ''_'' \<and> (case cs of [] \<Rightarrow> False | d # _ \<Rightarrow> is_decimal d) \<and> after_digit cs)"

definition int_body_ok :: "string \<Rightarrow> bool" where
  "int_body_ok s = (case s of [] \<Rightarrow> False | c # cs \<Rightarrow> is_decimal c \<and> after_digit cs)"

definition digits_value :: "string \<Rightarrow> int" where
  "digits_value s = foldl (\<lambda>n c. 10 * n + (int (code c) - 48)) 0 (filter is_decimal s)"

definition int_body :: "string \<Rightarrow> exn + int" where
  "int_body s =
     (if int_body_ok s \<and> length (filter is_decimal s) \<le> int_max_str_digits
      then Inr (digits_value s) else Inl ValueError)"

definition py_int :: "string \<Rightarrow> exn + int" where
  "py_int s =
     (case rev (dropWhile is_int_space (rev (dropWhile is_int_space s))) of
        [] \<Rightarrow> Inl ValueError
      | c # cs \<Rightarrow>
          if c = CHR ''-'' then map_sum id uminus (int_body cs)
          else if c = CHR ''+'' then int_body cs
          else int_body (c # cs))"

text \<open>A list comprehension over fallible items: the first raise ends it.\<close>

fun sequence :: "(exn + 'a) list \<Rightarrow> exn + 'a list" where
  "sequence [] = Inr []"
| "sequence (r # rs) =
     (case r of Inl e \<Rightarrow> Inl e
      | Inr x \<Rightarrow> (case sequence rs of Inl e \<Rightarrow> Inl e | Inr xs \<Rightarrow> Inr (x # xs)))"

section \<open>Natural order key (pdf\_generator.py)\<close>

text \<open>
  \<open>re.split(r'(\d+)', s)\<close>: the text before the first digit run, then alternately a
  digit run and the text after it. The list has odd length; texts may be empty.
\<close>

function re_split :: "string \<Rightarrow> string list" where
  "re_split s =
     (let t = takeWhile (\<lambda>c. \<not> is_decimal c) s;
          r = dropWhile (\<lambda>c. \<not> is_decimal c) s
      in if r = [] then [t]
         else t # takeWhile is_decimal r # re_split (dropWhile is_decimal r))"
  by pat_completeness auto
termination
proof (relation "measure length")
  show "wf (measure length)" by simp
next
  fix s t r :: string
  assume r: "r = dropWhile (\<lambda>c. \<not> is_decimal c) s" and ne: "r \<noteq> []"
  from ne r have "is_decimal (hd r)"
    using hd_dropWhile [of "\<lambda>c. \<not> is_decimal c" s] by blast
  with ne have "length (dropWhile is_decimal r) < length r"
    using length_dropWhile_le [of is_decimal "tl r"] by (cases r) auto
  moreover have "length r \<le> length s"
    using r length_dropWhile_le by simp
  ultimately show "(dropWhile is_decimal r, s) \<in> measure length" by simp
qed

declare re_split.simps [simp del]

text \<open>An element of a key: a lower-cased text or the integer of a digit run.\<close>

datatype tok = Txt string | Num int

definition key_item :: "string \<Rightarrow> exn + tok" where
  "key_item text = (if isdigit text then map_sum id Num (py_int text) else Inr (Txt (lower text)))"

definition natural_sort_key :: "string \<Rightarrow> exn + tok list" where
  "natural_sort_key s = sequence (map key_item (re_split s))"

section \<open>Comparing keys and sorting by key\<close>

text \<open>
  Python compares lists element by element: the first pair of unequal elements decides,
  by \<open><\<close>, which raises \<open>TypeError\<close> between a \<open>str\<close> and an \<open>int\<close>; a proper
  prefix is smaller.
\<close>

fun tok_lt :: "tok \<Rightarrow> tok \<Rightarrow> exn + bool" where
  "tok_lt (Txt a) (Txt b) = Inr (a < b)"
| "tok_lt (Num m) (Num n) = Inr (m < n)"
| "tok_lt _ _ = Inl TypeError"

fun key_lt :: "tok list \<Rightarrow> tok list \<Rightarrow> exn + bool" where
  "key_lt [] [] = Inr False"
| "key_lt [] (y # ys) = Inr True"
| "key_lt (x # xs) [] = Inr False"
| "key_lt (x # xs) (y # ys) = (if x = y then key_lt xs ys else tok_lt x y)"

text \<open>
  \<open>sorted(xs, key=f)\<close> computes every key first (a raise there ends the call), then sorts
  stably using \<open><\<close> on keys only. The model is the stable insertion sort: each element
  is placed before the first already placed element whose key is greater. It returns what
  CPython's merge sort returns whenever no comparison raises.
\<close>

fun insort_lt :: "tok list \<times> 'a \<Rightarrow> (tok list \<times> 'a) list \<Rightarrow> exn + (tok list \<times> 'a) list" where
  "insort_lt p [] = Inr [p]"
| "insort_lt p (q # qs) =
     (case key_lt (fst p) (fst q) of
        Inl e \<Rightarrow> Inl e
      | Inr True \<Rightarrow> Inr (p # q # qs)
      | Inr False \<Rightarrow> (case insort_lt p qs of Inl e \<Rightarrow> Inl e | Inr r \<Rightarrow> Inr (q # r)))"

fun sort_pairs :: "(tok list \<times> 'a) list \<Rightarrow> (tok list \<times> 'a) list \<Rightarrow> exn + (tok list \<times> 'a) list" where
  "sort_pairs acc [] = Inr acc"
| "sort_pairs acc (p # ps) =
     (case insort_lt p acc of Inl e \<Rightarrow> Inl e | Inr acc' \<Rightarrow> sort_pairs acc' ps)"

definition py_sorted :: "('a \<Rightarrow> exn + tok list) \<Rightarrow> 'a list \<Rightarrow> exn + 'a list" where
  "py_sorted key xs =
     (case sequence (map key xs) of
        Inl e \<Rightarrow> Inl e
      | Inr ks \<Rightarrow> map_sum id (map snd) (sort_pairs [] (zip ks xs)))"

text \<open>
  The shape of every key \<open>natural_sort_key\<close> returns: texts at the even positions,
  integers at the odd ones, a text last.
\<close>

fun alternating :: "tok list \<Rightarrow> bool" where
  "alternating [Txt t] = True"
| "alternating (Txt t # Num n # ks) = alternating ks"
| "alternating _ = False"

section \<open>Python values\<close>

text \<open>
  What \<open>json.loads\<close> and \<open>ast.literal_eval\<close> return. A float is a dyadic rational
  \<open>Finite m e\<close> (\<open>m\<close> times two to the \<open>e\<close>), an infinity or a NaN; a dict is the list
  of its items, keys distinct.
\<close>

datatype pyfloat = Finite int int | Infinite bool | NaN

datatype pyval =
    PNone | PBool bool | PInt int | PFloat pyfloat | PStr string
  | PList "pyval list" | PTuple "pyval list" | PDict "(pyval \<times> pyval) list"

fun truthy :: "pyval \<Rightarrow> bool" where
  "truthy PNone = False"
| "truthy (PBool b) = b"
| "truthy (PInt n) = (n \<noteq> 0)"
| "truthy (PFloat (Finite m e)) = (m \<noteq> 0)"
| "truthy (PFloat _) = True"
| "truthy (PStr s) = (s \<noteq> [])"
| "truthy (PList xs) = (xs \<noteq> [])"
| "truthy (PTuple xs) = (xs \<noteq> [])"
| "truthy (PDict kvs) = (kvs \<noteq> [])"

text \<open>\<open>k in s\<close> on strings: \<open>k\<close> occurs in \<open>s\<close>.\<close>

fun contains_str :: "string \<Rightarrow> string \<Rightarrow> bool" where
  "contains_str k [] = (k = [])"
| "contains_str k (c # cs) = (take (length k) (c # cs) = k \<or> contains_str k cs)"

text \<open>
  \<open>k in v\<close> for a string \<open>k\<close>: a key of a dict, an element of a list or tuple, a
  substring of a string; any other \<open>v\<close> raises \<open>TypeError\<close>.
\<close>

fun contains :: "string \<Rightarrow> pyval \<Rightarrow> exn + bool" where
  "contains k (PDict kvs) = Inr (PStr k \<in> set (map fst kvs))"
| "contains k (PList xs) = Inr (PStr k \<in> set xs)"
| "contains k (PTuple xs) = Inr (PStr k \<in> set xs)"
| "contains k (PStr s) = Inr (contains_str k s)"
| "contains k _ = Inl TypeError"

text \<open>\<open>v[k]\<close> for a string \<open>k\<close>: defined on dicts only.\<close>

fun subscript :: "pyval \<Rightarrow> string \<Rightarrow> exn + pyval" where
  "subscript (PDict kvs) k = (case map_of kvs (PStr k) of None \<Rightarrow> Inl KeyError | Some v \<Rightarrow> Inr v)"
| "subscript _ k = Inl TypeError"

text \<open>What a \<open>for\<close> loop over a value visits.\<close>

fun items :: "pyval \<Rightarrow> exn + pyval list" where
  "items (PList xs) = Inr xs"
| "items (PTuple xs) = Inr xs"
| "items (PDict kvs) = Inr (map fst kvs)"
| "items (PStr s) = Inr (map (\<lambda>c. PStr [c]) s)"
| "items _ = Inl TypeError"

datatype pynum = NInt int | NFloat pyfloat

fun as_number :: "pyval \<Rightarrow> pynum option" where
  "as_number (PInt n) = Some (NInt n)"
| "as_number (PBool b) = Some (NInt (if b then 1 else 0))"
| "as_number (PFloat x) = Some (NFloat x)"
| "as_number _ = None"

section \<open>Paths (posixpath)\<close>

definition basename :: "string \<Rightarrow> string" where
  "basename p = rev (takeWhile (\<lambda>c. c \<noteq> CHR ''/'') (rev p))"

definition dirname :: "string \<Rightarrow> string" where
  "dirname p =
     (let head = rev (dropWhile (\<lambda>c. c \<noteq> CHR ''/'') (rev p))
      in if head \<noteq> [] \<and> \<not> list_all (\<lambda>c. c = CHR ''/'') head
         then rev (dropWhile (\<lambda>c. c = CHR ''/'') (rev head)) else head)"

text \<open>
  \<open>os.path.splitext\<close>: the extension starts at the last dot of the last component,
  unless only dots precede it there.
\<close>

definition splitext :: "string \<Rightarrow> string \<times> string" where
  "splitext p =
     (let f = basename p;
          ext = rev (takeWhile (\<lambda>c. c \<noteq> CHR ''.'') (rev f));
          stem = take (length f - length ext - 1) f
      in if CHR ''.'' \<in> set f \<and> \<not> list_all (\<lambda>c. c = CHR ''.'') stem
         then (take (length p - length ext - 1) p, CHR ''.'' # ext)
         else (p, []))"

definition path_join :: "string \<Rightarrow> string \<Rightarrow> string" where
  "path_join a b =
     (if b \<noteq> [] \<and> hd b = CHR ''/'' then b
      else if a = [] \<or> last a = CHR ''/'' then a @ b
      else a @ CHR ''/'' # b)"

definition endswith :: "string \<Rightarrow> string \<Rightarrow> bool" where
  "endswith p x = (length x \<le> length p \<and> drop (length p - length x) p = x)"

section \<open>Stripping the code fence (qwen\_utils.parse\_json)\<close>

text \<open>
  \<open>str.splitlines\<close>: the line boundaries below U+0100 are LF, VT, FF, CR, CR LF (one
  boundary), FS, GS, RS and NEL; a boundary at the very end opens no further line.
\<close>

definition is_linebreak :: "char \<Rightarrow> bool" where
  "is_linebreak c = ((10 \<le> code c \<and> code c \<le> 13) \<or> (28 \<le> code c \<and> code c \<le> 30) \<or> code c = 133)"

fun splitlines_from :: "string \<Rightarrow> string \<Rightarrow> string list" where
  "splitlines_from cur [] = (if cur = [] then [] else [rev cur])"
| "splitlines_from cur [c] = (if is_linebreak c then [rev cur] else [rev (c # cur)])"
| "splitlines_from cur (c # d # cs) =
     (if c = CHR 0x0D \<and> d = CHR 0x0A then rev cur # splitlines_from [] cs
      else if is_linebreak c then rev cur # splitlines_from [] (d # cs)
      else splitlines_from (c # cur) (d # cs))"

definition splitlines :: "string \<Rightarrow> string list" where
  "splitlines s = splitlines_from [] s"

fun join_lines :: "string list \<Rightarrow> string" where
  "join_lines [] = []"
| "join_lines [l] = l"
| "join_lines (l # m # ls) = l @ CHR 0x0A # join_lines (m # ls)"

text \<open>\<open>s.split("```")[0]\<close>: the text before the first run of three backquotes.\<close>

fun before_fence :: "string \<Rightarrow> string" where
  "before_fence (a # b # c # cs) =
     (if a = CHR 0x60 \<and> b = CHR 0x60 \<and> c = CHR 0x60 then []
      else a # before_fence (b # c # cs))"
| "before_fence s = s"

definition fence_json :: string where
  "fence_json = [CHR 0x60, CHR 0x60, CHR 0x60, CHR ''j'', CHR ''s'', CHR ''o'', CHR ''n'']"

definition parse_json :: "string \<Rightarrow> string" where
  "parse_json json_output =
     (case dropWhile (\<lambda>line. line \<noteq> fence_json) (splitlines json_output) of
        [] \<Rightarrow> json_output
      | _ # rest \<Rightarrow> before_fence (join_lines rest))"

text \<open>\<open>s.replace(':=', ':')\<close>, left to right, occurrences not overlapping.\<close>

fun replace_walrus :: "string \<Rightarrow> string" where
  "replace_walrus (a # b # cs) =
     (if a = CHR '':'' \<and> b = CHR ''='' then CHR '':'' # replace_walrus cs
      else a # replace_walrus (b # cs))"
| "replace_walrus s = s"

text \<open>\<open>s.split(',')\<close>.\<close>

fun split_comma_from :: "string \<Rightarrow> string \<Rightarrow> string list" where
  "split_comma_from cur [] = [rev cur]"
| "split_comma_from cur (c # cs) =
     (if c = CHR '','' then rev cur # split_comma_from [] cs else split_comma_from (c # cur) cs)"

definition split_comma :: "string \<Rightarrow> string list" where
  "split_comma s = split_comma_from [] s"

section \<open>The world and the external collaborators\<close>

text \<open>
  An image in memory, as the annotator sees it: its size, the bytes it was decoded from and
  the drawing operations applied to it since, in order.
\<close>

datatype font = Font "string option" nat

datatype draw_op = Rectangle int int int int | Text int int string font

record image =
  img_size :: "int \<times> int"
  img_data :: string
  img_ops :: "draw_op list"

text \<open>
  A request to a remote model: the detection request carries the media type and the bytes
  of the page image (prompt, model and pixel bounds are the same in every request), the
  translation request carries the text.
\<close>

datatype call = Detect string string | Translate pyval

text \<open>A printed line: the place that prints it, and the value it shows.\<close>

datatype msg =
    Note string | Note_exn string exn | Note_val string pyval | Note_str string string

text \<open>
  The state the code changes: the files (path to bytes), the requests sent to the remote
  services so far, and the lines printed so far.
\<close>

record world =
  files :: "string \<rightharpoonup> string"
  calls :: "call list"
  printed :: "msg list"

definition say :: "msg \<Rightarrow> world \<Rightarrow> world" where
  "say m w = w\<lparr>printed := printed w @ [m]\<rparr>"

text \<open>
  What the code takes from outside, as parameters of the model:
  \<^item> \<open>api_key\<close>: the module constant \<open>MODELSCOPE_API_KEY\<close>, read from the environment at import;
  \<^item> \<open>remote\<close>: the answer of the remote service to a request, given the requests before it;
  \<^item> \<open>json_loads\<close>, \<open>re_findall\<close> (pattern, text), \<open>literal_eval\<close>: the library parsers;
  \<^item> \<open>float_scaled dim bound cur\<close>: \<open>int(dim * (bound / cur) ** 0.5)\<close> in double precision,
    and \<open>float_rescale x d n\<close>: \<open>int(x / d * n)\<close>, both for a divisor other than zero;
  \<^item> \<open>image_open\<close>: the size of the image some bytes decode to; \<open>image_encode\<close>: the bytes
    \<open>Image.save\<close> writes for an image and a path;
  \<^item> \<open>truetype\<close>: whether \<open>ImageFont.truetype\<close> loads a font from a path (or without one);
  \<^item> \<open>makedirs\<close>: whether \<open>os.makedirs(path, exist_ok=True)\<close> succeeds; \<open>abspath\<close>;
  \<^item> \<open>rasterize\<close>: the rasterizer (\<open>convert_pdf_to_images\<close>), from the document path, the
    image directory and the files to the page image paths and the files with the pages added;
  \<^item> \<open>pdf_encode\<close>: the bytes of a document with the given pages (width, height, image path).
\<close>

record env =
  api_key :: "string option"
  remote :: "call list \<Rightarrow> call \<Rightarrow> exn + string"
  json_loads :: "string \<Rightarrow> exn + pyval"
  re_findall :: "string \<Rightarrow> string \<Rightarrow> (string \<times> string) list"
  literal_eval :: "string \<Rightarrow> exn + pyval"
  float_scaled :: "int \<Rightarrow> int \<Rightarrow> int \<Rightarrow> exn + int"
  float_rescale :: "pynum \<Rightarrow> int \<Rightarrow> int \<Rightarrow> exn + int"
  image_open :: "string \<Rightarrow> exn + int \<times> int"
  image_encode :: "image \<Rightarrow> string \<Rightarrow> exn + string"
  truetype :: "string option \<Rightarrow> exn + unit"
  makedirs :: "string \<Rightarrow> exn + unit"
  abspath :: "string \<Rightarrow> string"
  rasterize :: "string \<Rightarrow> string \<Rightarrow> (string \<rightharpoonup> string) \<Rightarrow> exn + string list \<times> (string \<rightharpoonup> string)"
  pdf_encode :: "(int \<times> int \<times> string) list \<Rightarrow> string"

text \<open>\<open>not MODELSCOPE_API_KEY\<close> is true for an unset variable and for an empty one.\<close>

definition key_missing :: "env \<Rightarrow> bool" where
  "key_missing E = (case api_key E of None \<Rightarrow> True | Some k \<Rightarrow> k = [])"

text \<open>\<open>Image.open(path)\<close> (with the lazy decoding it stands for).\<close>

definition open_image :: "env \<Rightarrow> world \<Rightarrow> string \<Rightarrow> exn + image" where
  "open_image E w path =
     (case files w path of
        None \<Rightarrow> Inl OSError
      | Some bytes \<Rightarrow>
          (case image_open E bytes of
             Inl e \<Rightarrow> Inl e
           | Inr sz \<Rightarrow> Inr \<lparr>img_size = sz, img_data = bytes, img_ops = []\<rparr>))"

section \<open>Geometry normalizer (qwen\_vl\_utils.smart\_resize)\<close>

definition smart_resize :: "env \<Rightarrow> int \<Rightarrow> int \<Rightarrow> int \<Rightarrow> int \<Rightarrow> exn + int \<times> int" where
  "smart_resize E height width min_pixels max_pixels =
     (let current_pixels = height * width in
      if min_pixels \<le> current_pixels \<and> current_pixels \<le> max_pixels then Inr (height, width)
      else
        let bound = (if current_pixels < min_pixels then min_pixels else max_pixels) in
        if current_pixels = 0 then Inl ZeroDivisionError
        else (case float_scaled E height bound current_pixels of
                Inl e \<Rightarrow> Inl e
              | Inr new_height \<Rightarrow>
                  (case float_scaled E width bound current_pixels of
                     Inl e \<Rightarrow> Inl e
                   | Inr new_width \<Rightarrow> Inr (new_height, new_width))))"

definition min_pixels :: int where "min_pixels = 512 * 28 * 28"
definition max_pixels :: int where "max_pixels = 2048 * 28 * 28"

section \<open>Translation and detection calls (qwen\_utils)\<close>

definition translateWithAPI :: "env \<Rightarrow> pyval \<Rightarrow> world \<Rightarrow> (exn + pyval) \<times> world" where
  "translateWithAPI E raw w =
     (if key_missing E then (Inr raw, say (Note ''translate: key not set'') w)
      else
        let w1 = w\<lparr>calls := calls w @ [Translate raw]\<rparr> in
        (case remote E (calls w) (Translate raw) of
           Inl e \<Rightarrow> (Inl e, w1)
         | Inr content \<Rightarrow> (Inr (PStr content), say (Note_str ''translate: result'' content) w1)))"

definition media_type :: "string \<Rightarrow> exn + string" where
  "media_type image_path =
     (let image_ext = snd (splitext image_path) in
      if image_ext = ''.webp'' then Inr ''image/webp''
      else if image_ext = ''.jpeg'' \<or> image_ext = ''.jpg'' then Inr ''image/jpeg''
      else if image_ext = ''.png'' then Inr ''image/png''
      else Inl UnboundLocalError)"

definition inference_with_api :: "env \<Rightarrow> string \<Rightarrow> world \<Rightarrow> (exn + string) \<times> world" where
  "inference_with_api E image_path w =
     (if key_missing E then (Inl ValueError, w)
      else if \<not> (endswith image_path ''.png'' \<or> endswith image_path ''.jpg''
                  \<or> endswith image_path ''.jpeg'' \<or> endswith image_path ''.webp'')
      then (Inl ValueError, w)
      else (case files w image_path of
              None \<Rightarrow> (Inl OSError, w)
            | Some bytes \<Rightarrow>
                (case media_type image_path of
                   Inl e \<Rightarrow> (Inl e, w)
                 | Inr mt \<Rightarrow>
                     (remote E (calls w) (Detect mt bytes),
                      w\<lparr>calls := calls w @ [Detect mt bytes]\<rparr>))))"

section \<open>Annotating one page (qwen\_utils.plot\_text\_bounding\_boxes)\<close>

definition font_paths :: "string list" where
  "font_paths = [''/System/Library/Fonts/SF-Pro.ttf'', ''/System/Library/Fonts/Helvetica.ttc'',
                 ''/Library/Fonts/Arial.ttf'', ''/System/Library/Fonts/SFNSText.ttf'']"

fun get_font_from :: "env \<Rightarrow> string list \<Rightarrow> nat \<Rightarrow> exn + font" where
  "get_font_from E [] sz = (case truetype E None of Inl e \<Rightarrow> Inl e | Inr _ \<Rightarrow> Inr (Font None sz))"
| "get_font_from E (path # paths) sz =
     (case truetype E (Some path) of
        Inr _ \<Rightarrow> Inr (Font (Some path) sz)
      | Inl e \<Rightarrow> if e = OSError then get_font_from E paths sz else Inl e)"

definition get_font :: "env \<Rightarrow> nat \<Rightarrow> exn + font" where
  "get_font E sz = get_font_from E font_paths sz"

definition noto_path :: string where
  "noto_path = ''/Library/Fonts/NotoSansCJK-Regular.ttc''"

definition load_font :: "env \<Rightarrow> world \<Rightarrow> (exn + font) \<times> world" where
  "load_font E w =
     (case truetype E (Some noto_path) of
        Inr _ \<Rightarrow> (Inr (Font (Some noto_path) 50), w)
      | Inl e \<Rightarrow>
          if e = OSError
          then (case get_font E 40 of
                  Inl e' \<Rightarrow> (Inl e', w)
                | Inr f \<Rightarrow> (Inr f, say (Note ''plot: default font'') w))
          else (Inl e, w))"

text \<open>The pattern of the fallback scan, \<open>"bbox_2d":\s*\[(.*?)\],\s*"text_content":\s*"(.*?)"\<close>.\<close>

definition bbox_pattern :: string where
  "bbox_pattern =
     CHR 0x22 # ''bbox_2d'' @ CHR 0x22 # '':'' @ CHR 0x5C # ''s*'' @ CHR 0x5C # ''[(.*?)'' @ CHR 0x5C # ''],''
     @ CHR 0x5C # ''s*'' @ CHR 0x22 # ''text_content'' @ CHR 0x22 # '':'' @ CHR 0x5C # ''s*''
     @ CHR 0x22 # ''(.*?)'' @ [CHR 0x22]"

definition match_box :: "string \<times> string \<Rightarrow> exn + pyval" where
  "match_box m =
     (case sequence (map (\<lambda>x. py_int (strip x)) (split_comma (fst m))) of
        Inl e \<Rightarrow> Inl e
      | Inr coords \<Rightarrow>
          Inr (PDict [(PStr ''bbox_2d'', PList (map PInt coords)), (PStr ''text_content'', PStr (snd m))]))"

definition regex_boxes :: "env \<Rightarrow> string \<Rightarrow> exn + pyval" where
  "regex_boxes E json_data =
     map_sum id PList (sequence (map match_box (re_findall E bbox_pattern json_data)))"

text \<open>The inner \<open>try\<close>: strict parse, and the scan when the strict parse reports malformed JSON.\<close>

definition load_boxes :: "env \<Rightarrow> string \<Rightarrow> exn + pyval" where
  "load_boxes E json_data =
     (case json_loads E (replace_walrus json_data) of
        Inr v \<Rightarrow> Inr v
      | Inl e \<Rightarrow> if e = JSONDecodeError then regex_boxes E (replace_walrus json_data) else Inl e)"

text \<open>
  With its handler: any exception of the inner \<open>try\<close> leads to \<open>ast.literal_eval\<close>, and a
  failure there (whatever it is) to \<open>None\<close>: the function returns the image as it is.
\<close>

definition parsed_boxes :: "env \<Rightarrow> string \<Rightarrow> world \<Rightarrow> pyval option \<times> world" where
  "parsed_boxes E json_data w =
     (case load_boxes E json_data of
        Inr v \<Rightarrow> (Some v, w)
      | Inl e \<Rightarrow>
          (let w1 = say (Note ''plot: trying literal_eval'') (say (Note_exn ''plot: JSON parsing failed'' e) w)
           in case literal_eval E (replace_walrus json_data) of
                Inr v \<Rightarrow> (Some v, w1)
              | Inl e' \<Rightarrow>
                  (None, say (Note_str ''plot: cannot parse'' (take 200 (replace_walrus json_data))) w1)))"

definition rescale :: "env \<Rightarrow> pyval \<Rightarrow> int \<Rightarrow> int \<Rightarrow> exn + int" where
  "rescale E c d n =
     (case as_number c of
        None \<Rightarrow> Inl TypeError
      | Some x \<Rightarrow> if d = 0 then Inl ZeroDivisionError else float_rescale E x d n)"

text \<open>The four absolute coordinates, in the order the code computes them, then ordered.\<close>

definition box_coords ::
  "env \<Rightarrow> pyval list \<Rightarrow> int \<Rightarrow> int \<Rightarrow> int \<Rightarrow> int \<Rightarrow> exn + int \<times> int \<times> int \<times> int" where
  "box_coords E cs input_width input_height width height =
     (case rescale E (cs ! 1) input_height height of Inl e \<Rightarrow> Inl e | Inr abs_y1 \<Rightarrow>
      (case rescale E (cs ! 0) input_width width of Inl e \<Rightarrow> Inl e | Inr abs_x1 \<Rightarrow>
       (case rescale E (cs ! 3) input_height height of Inl e \<Rightarrow> Inl e | Inr abs_y2 \<Rightarrow>
        (case rescale E (cs ! 2) input_width width of Inl e \<Rightarrow> Inl e | Inr abs_x2 \<Rightarrow>
           Inr (if abs_x1 > abs_x2 then abs_x2 else abs_x1,
                if abs_y1 > abs_y2 then abs_y2 else abs_y1,
                if abs_x1 > abs_x2 then abs_x1 else abs_x2,
                if abs_y1 > abs_y2 then abs_y1 else abs_y2)))))"

definition draw_rectangle :: "int \<Rightarrow> int \<Rightarrow> int \<Rightarrow> int \<Rightarrow> image \<Rightarrow> image" where
  "draw_rectangle x1 y1 x2 y2 img = img\<lparr>img_ops := img_ops img @ [Rectangle x1 y1 x2 y2]\<rparr>"

text \<open>\<open>draw.text\<close> takes a string; any other value makes it raise.\<close>

definition draw_text :: "int \<Rightarrow> int \<Rightarrow> pyval \<Rightarrow> font \<Rightarrow> image \<Rightarrow> exn + image" where
  "draw_text x y v f img =
     (case v of
        PStr s \<Rightarrow> Inr (img\<lparr>img_ops := img_ops img @ [Text x y s f]\<rparr>)
      | _ \<Rightarrow> Inl TypeError)"

text \<open>The handler of the translation \<open>try\<close>: the original text is drawn.\<close>

definition draw_original ::
  "int \<Rightarrow> int \<Rightarrow> pyval \<Rightarrow> font \<Rightarrow> exn \<Rightarrow> world \<times> image \<Rightarrow> (exn + unit) \<times> world \<times> image" where
  "draw_original x y t f e st =
     (let w = say (Note_exn ''plot: translation or drawing failed'' e) (fst st)
      in case draw_text x y t f (snd st) of
           Inl e' \<Rightarrow> (Inl e', w, snd st)
         | Inr img \<Rightarrow> (Inr (), w, img))"

definition draw_label ::
  "env \<Rightarrow> int \<Rightarrow> int \<Rightarrow> pyval \<Rightarrow> font \<Rightarrow> world \<times> image \<Rightarrow> (exn + unit) \<times> world \<times> image" where
  "draw_label E x y bounding_box f st =
     (case contains ''text_content'' bounding_box of
        Inl e \<Rightarrow> (Inl e, st)
      | Inr present \<Rightarrow>
          if \<not> present then (Inr (), st)
          else (case subscript bounding_box ''text_content'' of
                  Inl e \<Rightarrow> (Inl e, st)
                | Inr t \<Rightarrow>
                    if \<not> truthy t then (Inr (), st)
                    else (case translateWithAPI E t (fst st) of
                            (Inl e, w) \<Rightarrow> draw_original x y t f e (w, snd st)
                          | (Inr translated_text, w) \<Rightarrow>
                              (case draw_text x y translated_text f (snd st) of
                                 Inl e \<Rightarrow> draw_original x y t f e (w, snd st)
                               | Inr img \<Rightarrow> (Inr (), w, img)))))"

definition skip_box :: "pyval \<Rightarrow> world \<times> image \<Rightarrow> (exn + unit) \<times> world \<times> image" where
  "skip_box bounding_box st = (Inr (), say (Note_val ''plot: skipping invalid box'' bounding_box) (fst st), snd st)"

text \<open>One turn of the loop over the parsed records.\<close>

definition process_box ::
  "env \<Rightarrow> int \<Rightarrow> int \<Rightarrow> font \<Rightarrow> pyval \<Rightarrow> world \<times> image \<Rightarrow> (exn + unit) \<times> world \<times> image" where
  "process_box E input_width input_height f bounding_box st =
     (case contains ''bbox_2d'' bounding_box of
        Inl e \<Rightarrow> (Inl e, st)
      | Inr present \<Rightarrow>
          if \<not> present then skip_box bounding_box st
          else (case subscript bounding_box ''bbox_2d'' of
                  Inl e \<Rightarrow> (Inl e, st)
                | Inr v \<Rightarrow>
                    (case v of
                       PList cs \<Rightarrow>
                         if length cs < 4 then skip_box bounding_box st
                         else (case box_coords E cs input_width input_height
                                      (fst (img_size (snd st))) (snd (img_size (snd st))) of
                                 Inl e \<Rightarrow> (Inl e, st)
                               | Inr (x1, y1, x2, y2) \<Rightarrow>
                                   draw_label E x1 y2 bounding_box f
                                     (fst st, draw_rectangle x1 y1 x2 y2 (snd st)))
                     | _ \<Rightarrow> skip_box bounding_box st)))"

fun process_boxes ::
  "env \<Rightarrow> int \<Rightarrow> int \<Rightarrow> font \<Rightarrow> pyval list \<Rightarrow> world \<times> image \<Rightarrow> (exn + unit) \<times> world \<times> image" where
  "process_boxes E iw ih f [] st = (Inr (), st)"
| "process_boxes E iw ih f (b # bs) st =
     (case process_box E iw ih f b st of
        (Inl e, st') \<Rightarrow> (Inl e, st')
      | (Inr _, st') \<Rightarrow> process_boxes E iw ih f bs st')"

text \<open>The body of the outer \<open>try\<close>.\<close>

definition annotate ::
  "env \<Rightarrow> string \<Rightarrow> int \<Rightarrow> int \<Rightarrow> world \<times> image \<Rightarrow> (exn + unit) \<times> world \<times> image" where
  "annotate E response input_width input_height st =
     (case load_font E (fst st) of
        (Inl e, w) \<Rightarrow> (Inl e, w, snd st)
      | (Inr f, w) \<Rightarrow>
          (case parsed_boxes E (parse_json response) w of
             (None, w') \<Rightarrow> (Inr (), w', snd st)
           | (Some v, w') \<Rightarrow>
               (case items v of
                  Inl e \<Rightarrow> (Inl e, w', snd st)
                | Inr bs \<Rightarrow> process_boxes E input_width input_height f bs (w', snd st))))"

definition plot_text_bounding_boxes ::
  "env \<Rightarrow> string \<Rightarrow> string \<Rightarrow> int \<Rightarrow> int \<Rightarrow> world \<Rightarrow> (exn + image) \<times> world" where
  "plot_text_bounding_boxes E image_path response input_width input_height w =
     (case open_image E w image_path of
        Inl e \<Rightarrow> (Inl e, w)
      | Inr img \<Rightarrow>
          (case annotate E response input_width input_height (say (Note ''plot: image size'') w, img) of
             (Inr _, w', img') \<Rightarrow> (Inr img', w')
           | (Inl e, w', img') \<Rightarrow>
               (Inr img',
                say (Note_str ''plot: raw response'' (take 200 response))
                  (say (Note_exn ''plot: processing the boxes failed'' e) w'))))"

section \<open>One page, from file to file (qwen\_utils.main)\<close>

definition save_image :: "env \<Rightarrow> image \<Rightarrow> string \<Rightarrow> world \<Rightarrow> (exn + string) \<times> world" where
  "save_image E img output_path w =
     (case makedirs E (dirname (abspath E output_path)) of
        Inl e \<Rightarrow> (Inl e, w)
      | Inr _ \<Rightarrow>
          (case image_encode E img output_path of
             Inl e \<Rightarrow> (Inl e, w)
           | Inr bytes \<Rightarrow>
               (Inr output_path,
                say (Note_str ''save: image saved'' output_path)
                  (w\<lparr>files := (files w)(output_path \<mapsto> bytes)\<rparr>))))"

text \<open>\<open>if pdf_name:\<close> holds for a name that is given and not empty.\<close>

definition given :: "string option \<Rightarrow> bool" where
  "given name = (case name of None \<Rightarrow> False | Some n \<Rightarrow> n \<noteq> [])"

text \<open>
  The output path when none is passed; the same lines stand in the \<open>try\<close> body and in
  its handler.
\<close>

definition derive_output_path :: "env \<Rightarrow> string \<Rightarrow> string option \<Rightarrow> string option \<Rightarrow> exn + string" where
  "derive_output_path E image_path output_path pdf_name =
     (case output_path of
        Some p \<Rightarrow> Inr p
      | None \<Rightarrow>
          (let file_name = basename image_path;
               base_name = fst (splitext file_name);
               ext = snd (splitext file_name)
           in if given pdf_name
              then (let output_dir = path_join ''outputs'' (the pdf_name)
                    in case makedirs E output_dir of
                         Inl e \<Rightarrow> Inl e
                       | Inr _ \<Rightarrow> Inr (path_join output_dir (base_name @ ''_translated'' @ ext)))
              else Inr (path_join (dirname image_path) (base_name @ ''_translated'' @ ext))))"

text \<open>
  The body of the \<open>try\<close> of \<open>main\<close>. (Showing the response in the notebook, and
  printing the traceback in the handler, change neither the files nor the result and are
  left out.)
\<close>

definition main_attempt ::
  "env \<Rightarrow> string \<Rightarrow> string option \<Rightarrow> string option \<Rightarrow> world \<Rightarrow> (exn + string) \<times> world" where
  "main_attempt E image_path output_path pdf_name w =
     (case open_image E w image_path of
        Inl e \<Rightarrow> (Inl e, w)
      | Inr img \<Rightarrow>
          (case smart_resize E (snd (img_size img)) (fst (img_size img)) min_pixels max_pixels of
             Inl e \<Rightarrow> (Inl e, w)
           | Inr (input_height, input_width) \<Rightarrow>
               (case inference_with_api E image_path (say (Note_str ''main: processing'' image_path) w) of
                  (Inl e, w1) \<Rightarrow> (Inl e, w1)
                | (Inr response, w1) \<Rightarrow>
                    (case plot_text_bounding_boxes E image_path response input_width input_height w1 of
                       (Inl e, w2) \<Rightarrow> (Inl e, w2)
                     | (Inr modified_image, w2) \<Rightarrow>
                         (case derive_output_path E image_path output_path pdf_name of
                            Inl e \<Rightarrow> (Inl e, w2)
                          | Inr out \<Rightarrow> save_image E modified_image out w2)))))"

text \<open>
  The names bound in the module \<open>qwen_utils\<close>: its imports, constants and functions.
  Reading any other global name raises \<open>NameError\<close>.
\<close>

definition qwen_utils_names :: "string list" where
  "qwen_utils_names =
     [''json'', ''random'', ''io'', ''ast'', ''Image'', ''ImageDraw'', ''ImageFont'', ''ImageColor'',
      ''Markdown'', ''display'', ''OpenAI'', ''os'', ''base64'', ''smart_resize'', ''re'', ''sys'',
      ''min_pixels'', ''max_pixels'', ''prompt'', ''image_path'', ''MODELSCOPE_API_KEY'',
      ''parse_json'', ''translateWithAPI'', ''get_font'', ''plot_text_bounding_boxes'',
      ''save_image'', ''encode_image'', ''inference_with_api'', ''main'', ''natural_sort_key'',
      ''batch_process_images'']"

definition lookup_global :: "string \<Rightarrow> exn + unit" where
  "lookup_global name = (if name \<in> set qwen_utils_names then Inr () else Inl NameError)"

text \<open>\<open>shutil.copy(src, dst)\<close>, once the name \<open>shutil\<close> is found.\<close>

definition shutil_copy :: "string \<Rightarrow> string \<Rightarrow> world \<Rightarrow> (exn + unit) \<times> world" where
  "shutil_copy src dst w =
     (case lookup_global ''shutil'' of
        Inl e \<Rightarrow> (Inl e, w)
      | Inr _ \<Rightarrow>
          (case files w src of
             None \<Rightarrow> (Inl OSError, w)
           | Some bytes \<Rightarrow> (Inr (), w\<lparr>files := (files w)(dst \<mapsto> bytes)\<rparr>)))"

definition main ::
  "env \<Rightarrow> string \<Rightarrow> string option \<Rightarrow> string option \<Rightarrow> world \<Rightarrow> (exn + string) \<times> world" where
  "main E image_path output_path pdf_name w =
     (case main_attempt E image_path output_path pdf_name w of
        (Inr p, w1) \<Rightarrow> (Inr p, w1)
      | (Inl e, w1) \<Rightarrow>
          (let w2 = say (Note_exn ''main: error processing image'' e) w1
           in case derive_output_path E image_path output_path pdf_name of
                Inl e' \<Rightarrow> (Inl e', w2)
              | Inr out \<Rightarrow>
                  (case shutil_copy image_path out w2 of
                     (Inl e', w3) \<Rightarrow> (Inl e', w3)
                   | (Inr _, w3) \<Rightarrow> (Inr out, say (Note_str ''main: copied the original'' out) w3))))"

section \<open>Batch pipeline (qwen\_utils.batch\_process\_images)\<close>

fun process_all :: "env \<Rightarrow> string option \<Rightarrow> string list \<Rightarrow> world \<Rightarrow> (exn + string list) \<times> world" where
  "process_all E pdf_name [] w = (Inr [], w)"
| "process_all E pdf_name (image_path # rest) w =
     (case main E image_path None pdf_name w of
        (Inl e, w1) \<Rightarrow> (Inl e, w1)
      | (Inr output_path, w1) \<Rightarrow>
          (case process_all E pdf_name rest w1 of
             (Inl e, w2) \<Rightarrow> (Inl e, w2)
           | (Inr outs, w2) \<Rightarrow> (Inr (output_path # outs), w2)))"

definition batch_process_images ::
  "env \<Rightarrow> string list \<Rightarrow> string option \<Rightarrow> string \<Rightarrow> world \<Rightarrow> (exn + string list) \<times> world" where
  "batch_process_images E image_paths pdf_name output_dir w =
     (case (if given pdf_name then makedirs E (path_join output_dir (the pdf_name)) else Inr ()) of
        Inl e \<Rightarrow> (Inl e, w)
      | Inr _ \<Rightarrow>
          (case py_sorted natural_sort_key image_paths of
             Inl e \<Rightarrow> (Inl e, w)
           | Inr sorted_paths \<Rightarrow>
               (case process_all E pdf_name sorted_paths w of
                  (Inl e, w1) \<Rightarrow> (Inl e, w1)
                | (Inr translated_paths, w1) \<Rightarrow> (py_sorted natural_sort_key translated_paths, w1))))"

section \<open>Document assembler (pdf\_generator.images\_to\_pdf)\<close>

definition get_image_dimensions :: "env \<Rightarrow> world \<Rightarrow> string \<Rightarrow> exn + int \<times> int" where
  "get_image_dimensions E w path = map_sum id img_size (open_image E w path)"

fun add_pages ::
  "env \<Rightarrow> (int \<times> int) option \<Rightarrow> string list \<Rightarrow> world \<Rightarrow> (exn + (int \<times> int \<times> string) list) \<times> world" where
  "add_pages E page_size [] w = (Inr [], w)"
| "add_pages E page_size (img_path # rest) w =
     (if files w img_path = None
      then add_pages E page_size rest (say (Note_str ''pdf: image not found'' img_path) w)
      else (case get_image_dimensions E w img_path of
              Inl e \<Rightarrow> (Inl e, w)
            | Inr dims \<Rightarrow>
                (case add_pages E page_size rest w of
                   (Inl e, w1) \<Rightarrow> (Inl e, w1)
                 | (Inr pages, w1) \<Rightarrow>
                     (Inr ((case page_size of None \<Rightarrow> (fst dims, snd dims, img_path)
                            | Some ps \<Rightarrow> (fst ps, snd ps, img_path)) # pages), w1))))"

definition images_to_pdf ::
  "env \<Rightarrow> string list \<Rightarrow> string \<Rightarrow> (int \<times> int) option \<Rightarrow> world \<Rightarrow> (exn + string) \<times> world" where
  "images_to_pdf E image_paths output_pdf_path page_size w =
     (case makedirs E (dirname output_pdf_path) of
        Inl e \<Rightarrow> (Inl e, w)
      | Inr _ \<Rightarrow>
          (case py_sorted natural_sort_key image_paths of
             Inl e \<Rightarrow> (Inl e, w)
           | Inr sorted_paths \<Rightarrow>
               (case (if page_size = None \<and> sorted_paths \<noteq> []
                      then map_sum id (\<lambda>_. ()) (get_image_dimensions E w (hd sorted_paths))
                      else Inr ()) of
                  Inl e \<Rightarrow> (Inl e, say (Note ''pdf: sorted image paths'') w)
                | Inr _ \<Rightarrow>
                    (case add_pages E page_size sorted_paths (say (Note ''pdf: sorted image paths'') w) of
                       (Inl e, w1) \<Rightarrow> (Inl e, w1)
                     | (Inr pages, w1) \<Rightarrow>
                         (Inr output_pdf_path,
                          say (Note_str ''pdf: created'' output_pdf_path)
                            (w1\<lparr>files := (files w1)(output_pdf_path \<mapsto> pdf_encode E pages)\<rparr>))))))"

section \<open>Command line entry (main.py)\<close>

definition check_environment :: "env \<Rightarrow> world \<Rightarrow> bool \<times> world" where
  "check_environment E w =
     (if key_missing E
      then (False, say (Note ''check: set the key (Windows)'') (say (Note ''check: set the key (Linux/macOS)'')
              (say (Note ''check: please set it'') (say (Note ''check: key not set'') w))))
      else (True, w))"

record args =
  arg_pdf_path :: "string option"
  arg_output :: string
  arg_web :: bool

text \<open>
  How a run ends: \<open>sys.exit\<close> with a status, a normal return, or an exception nothing
  catches.
\<close>

datatype outcome = Exit nat | Done | Uncaught exn

text \<open>The \<open>try\<close> body of the command line mode.\<close>

definition translate_pdf :: "env \<Rightarrow> string \<Rightarrow> string \<Rightarrow> world \<Rightarrow> (exn + string) \<times> world" where
  "translate_pdf E path out_dir w =
     (let pdf_name = fst (splitext (basename path));
          output_subdir = path_join out_dir pdf_name
      in case rasterize E path (path_join ''imgs'' pdf_name) (files w) of
           Inl e \<Rightarrow> (Inl e, say (Note ''cli: converting'') w)
         | Inr (image_paths, fs) \<Rightarrow>
             (case batch_process_images E image_paths (Some pdf_name) out_dir
                     (say (Note ''cli: translating'') (say (Note ''cli: converted'')
                        (say (Note ''cli: converting'') (w\<lparr>files := fs\<rparr>)))) of
                (Inl e, w1) \<Rightarrow> (Inl e, w1)
              | (Inr translated_paths, w1) \<Rightarrow>
                  (case py_sorted natural_sort_key translated_paths of
                     Inl e \<Rightarrow> (Inl e, say (Note ''cli: translation completed'') w1)
                   | Inr sorted_paths \<Rightarrow>
                       images_to_pdf E sorted_paths
                         (path_join output_subdir (pdf_name @ ''_translated.pdf'')) None
                         (say (Note ''cli: translation completed'') w1))))"

definition cli_main :: "env \<Rightarrow> args \<Rightarrow> world \<Rightarrow> outcome \<times> world" where
  "cli_main E a w =
     (case check_environment E w of
        (False, w1) \<Rightarrow> (Exit 1, w1)
      | (True, w1) \<Rightarrow>
          if arg_web a \<or> \<not> given (arg_pdf_path a) then (Done, say (Note ''cli: launching the web interface'') w1)
          else if files w1 (the (arg_pdf_path a)) = None then (Exit 1, say (Note ''cli: PDF file not found'') w1)
          else (case makedirs E (arg_output a) of
                  Inl e \<Rightarrow> (Uncaught e, w1)
                | Inr _ \<Rightarrow>
                    (case makedirs E (path_join (arg_output a) (fst (splitext (basename (the (arg_pdf_path a)))))) of
                       Inl e \<Rightarrow> (Uncaught e, w1)
                     | Inr _ \<Rightarrow>
                         (case translate_pdf E (the (arg_pdf_path a)) (arg_output a) w1 of
                            (Inl e, w2) \<Rightarrow> (Exit 1, say (Note_exn ''cli: error processing PDF'' e) w2)
                          | (Inr p, w2) \<Rightarrow> (Done, say (Note_str ''cli: output PDF'' p) w2)))))"

section \<open>Notions used in the statements\<close>






fun accepted_bbox :: "pyval \<Rightarrow> pyval list option" where
  "accepted_bbox (PDict kvs) =
     (case map_of kvs (PStr ''bbox_2d'') of
        Some (PList cs) \<Rightarrow> if length cs < 4 then None else Some cs
      | _ \<Rightarrow> None)"
| "accepted_bbox _ = None"

text \<open>The text of a record, when it has one that is a string and not empty.\<close>

fun record_text :: "pyval \<Rightarrow> string option" where
  "record_text (PDict kvs) =
     (case map_of kvs (PStr ''text_content'') of
        Some (PStr s) \<Rightarrow> if s = [] then None else Some s
      | _ \<Rightarrow> None)"
| "record_text _ = None"



text \<open>
  A response in a code fence: the opener line, the payload, the closer, and whatever
  follows the closer.
\<close>

definition fence :: string where
  "fence = [CHR 0x60, CHR 0x60, CHR 0x60]"

definition fenced :: "string \<Rightarrow> string \<Rightarrow> string" where
  "fenced payload trailer = fence_json @ CHR 0x0A # payload @ fence @ trailer"

text \<open>Keys in natural order: no key is smaller than a key before it.\<close>

fun key_sorted :: "tok list list \<Rightarrow> bool" where
  "key_sorted [] = True"
| "key_sorted (k # ks) = (list_all (\<lambda>k'. key_lt k' k = Inr False) ks \<and> key_sorted ks)"

text \<open>
  The names of the rasterizer (pdf\_utils.convert\_pdf\_to\_images): page \<open>n\<close> of the
  document \<open>name\<close> is stored in the directory \<open>dir\<close> as \<open>name_page_n.png\<close>, with \<open>ds\<close> the
  decimal digits of \<open>n\<close>. Below it, the path \<open>main\<close> derives for its annotated image.
\<close>

definition page_image :: "string \<Rightarrow> string \<Rightarrow> string \<Rightarrow> string" where
  "page_image dir name ds = path_join dir (name @ ''_page_'' @ ds @ ''.png'')"

definition translated_image :: "string \<Rightarrow> string \<Rightarrow> string \<Rightarrow> string" where
  "translated_image pdf name ds =
     path_join (path_join ''outputs'' pdf) (name @ ''_page_'' @ ds @ ''_translated.png'')"

section \<open>Sample inputs\<close>

text \<open>
  A three-page document \<open>doc\<close>, its pages rasterized to 1024 by 1024 images, and the
  collaborators' answers on it: the detection service finds one line of text on every page
  and answers with the JSON below, the translation service answers \<open>hello\<close>. The library
  functions are given by their values on the texts that occur. The page sizes lie inside
  the pixel interval, so no scaled size is computed; rescaling a coordinate is exact on the
  sample (the model frame equals the native one, and its side is a power of two).
\<close>

definition sample_payload :: string where
  "sample_payload =
     ''[{'' @ CHR 0x22 # ''bbox_2d'' @ CHR 0x22 # '': [10, 20, 300, 60], '' @ CHR 0x22 # ''text_content''
     @ CHR 0x22 # '': '' @ CHR 0x22 # ''ni hao'' @ CHR 0x22 # ''}]''"

definition sample_record :: pyval where
  "sample_record =
     PDict [(PStr ''bbox_2d'', PList [PInt 10, PInt 20, PInt 300, PInt 60]),
            (PStr ''text_content'', PStr ''ni hao'')]"

definition sample_env :: env where
  "sample_env =
     \<lparr>api_key = Some ''sk-sample'',
      remote = (\<lambda>history c. case c of Detect mt bytes \<Rightarrow> Inr sample_payload | Translate t \<Rightarrow> Inr ''hello''),
      json_loads = (\<lambda>s. if s = sample_payload then Inr (PList [sample_record]) else Inl JSONDecodeError),
      re_findall = (\<lambda>pattern s. []),
      literal_eval = (\<lambda>s. Inl ValueError),
      float_scaled = (\<lambda>dim bound cur. Inl OverflowError),
      float_rescale = (\<lambda>x d n. case x of NInt i \<Rightarrow> Inr (i * n div d) | NFloat y \<Rightarrow> Inl OverflowError),
      image_open = (\<lambda>bytes. if take 3 bytes = ''PNG'' then Inr (1024, 1024) else Inl OSError),
      image_encode = (\<lambda>img path. Inr (''PNG'' @ img_data img)),
      truetype = (\<lambda>path. if path = Some noto_path then Inr () else Inl OSError),
      makedirs = (\<lambda>path. Inr ()),
      abspath = (\<lambda>path. path_join ''/work'' path),
      rasterize = (\<lambda>path dir fs. Inl OSError),
      pdf_encode = (\<lambda>pages. ''PDF'')\<rparr>"

definition sample_world :: world where
  "sample_world =
     \<lparr>files = [''imgs/doc/doc_page_1.png'' \<mapsto> ''PNG-1'', ''imgs/doc/doc_page_2.png'' \<mapsto> ''PNG-2'',
               ''imgs/doc/doc_page_10.png'' \<mapsto> ''PNG-10''],
      calls = [], printed = []\<rparr>"

text \<open>The same collaborators when the credential is not set.\<close>

definition no_key_env :: env where
  "no_key_env = sample_env\<lparr>api_key := None\<rparr>"

text \<open>The same collaborators when the remote services cannot be reached.\<close>

definition offline_env :: env where
  "offline_env = sample_env\<lparr>remote := (\<lambda>history c. Inl APIError)\<rparr>"





definition sample_image :: image where
  "sample_image = \<lparr>img_size = (1024, 1024), img_data = ''PNG-1'', img_ops = []\<rparr>"

definition sample_font :: font where
  "sample_font = Font (Some noto_path) 50"

text \<open>
  A payload whose text holds three backquotes, and the parsers' answers on it: the
  payload is valid JSON; cut before the backquotes it is not, and the scan finds no closing
  quote in it.
\<close>

definition backquote_record :: pyval where
  "backquote_record =
     PDict [(PStr ''bbox_2d'', PList [PInt 10, PInt 20, PInt 300, PInt 60]),
            (PStr ''text_content'', PStr (''a'' @ fence @ ''b''))]"

definition backquote_payload :: string where
  "backquote_payload =
     ''[{'' @ CHR 0x22 # ''bbox_2d'' @ CHR 0x22 # '': [10, 20, 300, 60], '' @ CHR 0x22 # ''text_content''
     @ CHR 0x22 # '': '' @ CHR 0x22 # ''a'' @ fence @ ''b'' @ CHR 0x22 # ''}]''"

definition backquote_env :: env where
  "backquote_env =
     sample_env\<lparr>json_loads := (\<lambda>s. if s = backquote_payload then Inr (PList [backquote_record])
                                    else Inl JSONDecodeError)\<rparr>"


section \<open>Natural order key: facts\<close>

lemma digit_not_space: "is_digit_char c \<Longrightarrow> \<not> is_space c"
  by (auto simp: is_digit_char_def is_decimal_def is_space_def)

lemma dropWhile_none: "\<forall>c\<in>set s. \<not> P c \<Longrightarrow> dropWhile P s = s"
  by (cases s) auto

lemma strip_no_space: "\<forall>c\<in>set s. \<not> is_space c \<Longrightarrow> strip s = s"
  by (simp add: strip_def dropWhile_none)

lemma strip_digits: "list_all is_digit_char s \<Longrightarrow> strip s = s"
  by (rule strip_no_space) (auto simp: list_all_iff digit_not_space)

lemma digit_not_int_space: "is_digit_char c \<Longrightarrow> \<not> is_int_space c"
  by (auto simp: is_digit_char_def is_decimal_def is_int_space_def)

lemma int_strip_digits:
  "list_all is_digit_char s \<Longrightarrow> rev (dropWhile is_int_space (rev (dropWhile is_int_space s))) = s"
  by (simp add: dropWhile_none list_all_iff digit_not_int_space)

lemma after_digit_decimals: "list_all is_decimal s \<Longrightarrow> after_digit s"
  by (induction s) auto

lemma decimal_not_sign: "is_decimal c \<Longrightarrow> c \<noteq> CHR ''-'' \<and> c \<noteq> CHR ''+''"
  by (auto simp: is_decimal_def code_def)

text \<open>A run of decimal digits converts to its value, unless it is longer than the limit.\<close>

lemma py_int_decimals:
  assumes "s \<noteq> []" "list_all is_decimal s"
  shows "py_int s = (if length s \<le> int_max_str_digits then Inr (digits_value s) else Inl ValueError)"
proof -
  from assms(2) have d: "list_all is_digit_char s" by (simp add: list_all_iff is_digit_char_def)
  from assms(2) have f: "filter is_decimal s = s" by (simp add: list_all_iff)
  from assms obtain c cs where s: "s = c # cs" by (cases s) auto
  with assms(2) have c: "is_decimal c" and cs: "after_digit cs"
    by (simp_all add: after_digit_decimals)
  from c have sign: "c \<noteq> CHR ''-''" "c \<noteq> CHR ''+''" using decimal_not_sign by blast+
  have "py_int s = int_body s"
    unfolding py_int_def int_strip_digits [OF d] using s sign by simp
  also have "\<dots> = (if length s \<le> int_max_str_digits then Inr (digits_value s) else Inl ValueError)"
    using c cs unfolding int_body_def f by (simp add: int_body_ok_def s)
  finally show ?thesis .
qed

lemma py_int_run:
  "s \<noteq> [] \<Longrightarrow> list_all is_decimal s \<Longrightarrow> length s \<le> int_max_str_digits \<Longrightarrow>
   py_int s = Inr (digits_value s)"
  by (simp add: py_int_decimals)

lemma key_item_decimals:
  assumes "s \<noteq> []" "list_all is_decimal s"
  shows "key_item s = (if length s \<le> int_max_str_digits then Inr (Num (digits_value s)) else Inl ValueError)"
proof -
  from assms have "isdigit s" by (simp add: isdigit_def list_all_iff is_digit_char_def)
  then show ?thesis by (simp add: key_item_def py_int_decimals [OF assms])
qed

lemma key_item_run:
  "s \<noteq> [] \<Longrightarrow> list_all is_decimal s \<Longrightarrow> length s \<le> int_max_str_digits \<Longrightarrow>
   key_item s = Inr (Num (digits_value s))"
  by (simp add: key_item_decimals)

lemma key_item_run_value:
  "s \<noteq> [] \<Longrightarrow> list_all is_decimal s \<Longrightarrow> key_item s = Inr n \<Longrightarrow> n = Num (digits_value s)"
  by (simp add: key_item_decimals split: if_splits)

lemma superscript_not_sign: "is_digit_char c \<Longrightarrow> c \<noteq> CHR ''-'' \<and> c \<noteq> CHR ''+''"
  by (auto simp: is_digit_char_def is_decimal_def code_def)

text \<open>The slip: a text that \<open>isdigit\<close> accepts and \<open>int\<close> does not.\<close>

lemma py_int_no_decimal:
  assumes "s \<noteq> []" "list_all is_digit_char s" "\<not> is_decimal (hd s)"
  shows "py_int s = Inl ValueError"
proof -
  from assms(1) obtain c cs where s: "s = c # cs" by (cases s) auto
  with assms(2) have "is_digit_char c" by simp
  then have sign: "c \<noteq> CHR ''-''" "c \<noteq> CHR ''+''" using superscript_not_sign by blast+
  have "py_int s = int_body s"
    unfolding py_int_def int_strip_digits [OF assms(2)] using s sign by simp
  with assms(3) s show ?thesis by (simp add: int_body_def int_body_ok_def)
qed

lemma key_item_text: "\<forall>c\<in>set t. \<not> is_decimal c \<Longrightarrow> key_item t = Inr k \<Longrightarrow> k = Txt (lower t)"
  by (cases t) (auto simp: key_item_def isdigit_def py_int_no_decimal split: if_splits)

lemma key_item_plain: "\<not> isdigit t \<Longrightarrow> key_item t = Inr (Txt (lower t))"
  by (simp add: key_item_def)

lemma takeWhile_text: "\<forall>c\<in>set (takeWhile (\<lambda>c. \<not> is_decimal c) s). \<not> is_decimal c"
  by (auto dest: set_takeWhileD)

lemma takeWhile_run:
  assumes "dropWhile (\<lambda>c. \<not> is_decimal c) s \<noteq> []"
  shows "takeWhile is_decimal (dropWhile (\<lambda>c. \<not> is_decimal c) s) \<noteq> []"
    and "list_all is_decimal (takeWhile is_decimal (dropWhile (\<lambda>c. \<not> is_decimal c) s))"
proof -
  let ?r = "dropWhile (\<lambda>c. \<not> is_decimal c) s"
  from assms have "is_decimal (hd ?r)"
    using hd_dropWhile [of "\<lambda>c. \<not> is_decimal c" s] by blast
  with assms show "takeWhile is_decimal ?r \<noteq> []" by (cases ?r) auto
  show "list_all is_decimal (takeWhile is_decimal ?r)"
    by (auto simp: list_all_iff dest: set_takeWhileD)
qed

lemma natural_sort_key_last:
  assumes "\<forall>c\<in>set s. \<not> is_decimal c"
  shows "natural_sort_key s = map_sum id (\<lambda>x. [x]) (key_item s)"
proof -
  from assms have "takeWhile (\<lambda>c. \<not> is_decimal c) s = s"
    and "dropWhile (\<lambda>c. \<not> is_decimal c) s = []" by simp_all
  then have "re_split s = [s]"
    by (subst re_split.simps) (simp add: Let_def)
  then show ?thesis
    by (simp add: natural_sort_key_def split: sum.splits)
qed

lemma natural_sort_key_more:
  "dropWhile (\<lambda>c. \<not> is_decimal c) s \<noteq> [] \<Longrightarrow>
   natural_sort_key s =
     (case key_item (takeWhile (\<lambda>c. \<not> is_decimal c) s) of
        Inl e \<Rightarrow> Inl e
      | Inr x \<Rightarrow>
          (case key_item (takeWhile is_decimal (dropWhile (\<lambda>c. \<not> is_decimal c) s)) of
             Inl e \<Rightarrow> Inl e
           | Inr n \<Rightarrow>
               (case natural_sort_key (dropWhile is_decimal (dropWhile (\<lambda>c. \<not> is_decimal c) s)) of
                  Inl e \<Rightarrow> Inl e
                | Inr k \<Rightarrow> Inr (x # n # k))))"
  unfolding natural_sort_key_def
  by (subst re_split.simps) (simp add: Let_def split: sum.splits)

text \<open>Every key that is returned alternates texts and integers.\<close>

lemma natural_sort_key_alternating: "natural_sort_key s = Inr k \<Longrightarrow> alternating k"
proof (induction s arbitrary: k rule: re_split.induct)
  case (1 s)
  let ?t = "takeWhile (\<lambda>c. \<not> is_decimal c) s"
  let ?r = "dropWhile (\<lambda>c. \<not> is_decimal c) s"
  show ?case
  proof (cases "?r = []")
    case True
    then have nd: "\<forall>c\<in>set s. \<not> is_decimal c" by simp
    with "1.prems" obtain x where x: "key_item s = Inr x" "k = [x]"
      by (cases "key_item s") (auto simp: natural_sort_key_last)
    from key_item_text [OF nd x(1)] x show ?thesis by simp
  next
    case False
    from "1.prems" obtain x n k' where x: "key_item ?t = Inr x"
      and n: "key_item (takeWhile is_decimal ?r) = Inr n"
      and k': "natural_sort_key (dropWhile is_decimal ?r) = Inr k'"
      and k: "k = x # n # k'"
      unfolding natural_sort_key_more [OF False] by (auto split: sum.splits)
    from "1.IH" [OF refl refl False k'] have "alternating k'" .
    moreover from key_item_text [OF takeWhile_text x] have "x = Txt (lower ?t)" .
    moreover from key_item_run_value [OF takeWhile_run [OF False] n]
    have "n = Num (digits_value (takeWhile is_decimal ?r))" .
    ultimately show ?thesis using k by simp
  qed
qed

text \<open>Two such keys always compare: no \<open>TypeError\<close> between a text and an integer.\<close>

lemma alternating_comparable: "alternating a \<Longrightarrow> alternating b \<Longrightarrow> \<exists>r. key_lt a b = Inr r"
proof (induction a arbitrary: b rule: alternating.induct)
  case (1 t)
  then show ?case by (cases b rule: alternating.cases) auto
next
  case (2 t n ks)
  then show ?case by (cases b rule: alternating.cases) auto
qed auto

text \<open>
  Where no character is a superscript digit and no run of digits is longer than the
  limit of \<open>int\<close> (as in every string no longer than the limit), the key is defined.
\<close>

lemma key_item_defined:
  assumes "\<forall>c\<in>set t. is_digit_char c \<longrightarrow> is_decimal c" "length t \<le> int_max_str_digits"
  shows "\<exists>k. key_item t = Inr k"
proof (cases "isdigit t")
  case True
  with assms(1) have "t \<noteq> []" "list_all is_decimal t"
    by (auto simp: isdigit_def list_all_iff)
  with assms(2) show ?thesis by (simp add: key_item_run)
next
  case False
  then show ?thesis by (simp add: key_item_plain)
qed

lemma natural_sort_key_defined:
  "\<forall>c\<in>set s. is_digit_char c \<longrightarrow> is_decimal c \<Longrightarrow> length s \<le> int_max_str_digits \<Longrightarrow>
   \<exists>k. natural_sort_key s = Inr k"
proof (induction s rule: re_split.induct)
  case (1 s)
  let ?t = "takeWhile (\<lambda>c. \<not> is_decimal c) s"
  let ?r = "dropWhile (\<lambda>c. \<not> is_decimal c) s"
  show ?case
  proof (cases "?r = []")
    case True
    then have nd: "\<forall>c\<in>set s. \<not> is_decimal c" by simp
    from key_item_defined [OF "1.prems"] obtain k where "key_item s = Inr k" ..
    then show ?thesis by (simp add: natural_sort_key_last [OF nd])
  next
    case False
    have lr: "length ?r \<le> length s" by (rule length_dropWhile_le)
    have "\<forall>c\<in>set ?t. is_digit_char c \<longrightarrow> is_decimal c"
      using "1.prems"(1) by (auto dest: set_takeWhileD)
    moreover have "length ?t \<le> int_max_str_digits"
      using "1.prems"(2) length_takeWhile_le [of "\<lambda>c. \<not> is_decimal c" s] by simp
    ultimately obtain x where x: "key_item ?t = Inr x"
      using key_item_defined by blast
    have "length (takeWhile is_decimal ?r) \<le> length ?r" by (rule length_takeWhile_le)
    with lr "1.prems"(2) have "length (takeWhile is_decimal ?r) \<le> int_max_str_digits" by simp
    from key_item_run [OF takeWhile_run [OF False] this]
    obtain n where n: "key_item (takeWhile is_decimal ?r) = Inr n" by blast
    have "\<forall>c\<in>set (dropWhile is_decimal ?r). is_digit_char c \<longrightarrow> is_decimal c"
      using "1.prems"(1) by (auto dest!: set_dropWhileD)
    moreover have "length (dropWhile is_decimal ?r) \<le> int_max_str_digits"
      using lr "1.prems"(2) length_dropWhile_le [of is_decimal ?r] by simp
    ultimately obtain k where "natural_sort_key (dropWhile is_decimal ?r) = Inr k"
      using "1.IH" [OF refl refl False] by blast
    with x n show ?thesis by (simp add: natural_sort_key_more [OF False])
  qed
qed

text \<open>A name that is one run of digits longer than the limit has no key.\<close>

lemma natural_sort_key_long_run:
  assumes "list_all is_decimal s" "int_max_str_digits < length s"
  shows "natural_sort_key s = Inl ValueError"
proof -
  from assms(2) have ne: "s \<noteq> []" by auto
  with assms(1) have hd: "is_decimal (hd s)" by (cases s) auto
  with ne have t: "takeWhile (\<lambda>c. \<not> is_decimal c) s = []"
    and r: "dropWhile (\<lambda>c. \<not> is_decimal c) s = s" by (cases s; simp)+
  from assms(1) have d: "takeWhile is_decimal s = s" by (simp add: list_all_iff)
  from r ne have "dropWhile (\<lambda>c. \<not> is_decimal c) s \<noteq> []" by simp
  from natural_sort_key_more [OF this] show ?thesis
    unfolding t r d using key_item_decimals [OF ne assms(1)] assms(2)
    by (simp add: key_item_def isdigit_def lower_def)
qed

text \<open>The spec's example: three page names sort by page number, not by character.\<close>

lemma sorted_pages_example:
  "py_sorted natural_sort_key [''page_2'', ''page_10'', ''page_1''] = Inr [''page_1'', ''page_2'', ''page_10'']"
  by code_simp

text \<open>
  C3. The claim: for any string the key is defined, so sorting by it never raises. The
  code decides with \<open>str.isdigit\<close> which items to convert, and \<open>isdigit\<close> also accepts the
  superscript digits, which \<open>int\<close> rejects: on the one-character name U+00B2 (superscript
  two) the key raises \<open>ValueError\<close>, and so does sorting any list that holds such a name.
\<close>

theorem natural_sort_key_superscript_raises:
  "natural_sort_key [CHR 0xB2] = Inl ValueError
   \<and> py_sorted natural_sort_key [''page_1'', [CHR 0xB2]] = Inl ValueError
   \<and> natural_sort_key (''page_1'' @ [CHR 0xB2]) = Inl ValueError"
  by code_simp

section \<open>The credential\<close>

lemma say_calls [simp]: "calls (say m w) = calls w"
  by (simp add: say_def)

lemma say_files [simp]: "files (say m w) = files w"
  by (simp add: say_def)

lemma key_missing_no_key_env: "key_missing no_key_env"
  by (simp add: key_missing_def no_key_env_def)

text \<open>
  C10. Without the credential \<open>translateWithAPI\<close> returns its argument as it is: it does
  not raise, and it sends no request (the list of requests and the files stay as they were).
\<close>

theorem translateWithAPI_without_key:
  "key_missing E \<Longrightarrow>
   fst (translateWithAPI E raw w) = Inr raw
   \<and> calls (snd (translateWithAPI E raw w)) = calls w
   \<and> files (snd (translateWithAPI E raw w)) = files w"
  by (simp add: translateWithAPI_def)

theorem translateWithAPI_without_key_witness:
  "key_missing no_key_env
   \<and> fst (translateWithAPI no_key_env (PStr ''ni hao'') sample_world) = Inr (PStr ''ni hao'')
   \<and> calls (snd (translateWithAPI no_key_env (PStr ''ni hao'') sample_world)) = []"
  using translateWithAPI_without_key [OF key_missing_no_key_env, of "PStr ''ni hao''" sample_world]
  by (simp add: key_missing_no_key_env sample_world_def)

text \<open>
  C9. As the code has it: without the credential \<open>main\<close> of main.py exits with status 1
  before it touches a file or sends a request; and each detection call and each
  translation call tests the credential itself: without it the detection call raises
  \<open>ValueError\<close> and the translation call returns its argument, neither sending a request.
\<close>

theorem missing_key_fails_at_startup:
  "key_missing E \<Longrightarrow>
   fst (cli_main E a w) = Exit 1
   \<and> calls (snd (cli_main E a w)) = calls w
   \<and> files (snd (cli_main E a w)) = files w
   \<and> fst (inference_with_api E image_path w') = Inl ValueError
   \<and> snd (inference_with_api E image_path w') = w'
   \<and> fst (translateWithAPI E raw w') = Inr raw
   \<and> calls (snd (translateWithAPI E raw w')) = calls w'"
  by (simp add: cli_main_def check_environment_def inference_with_api_def translateWithAPI_def)

theorem missing_key_fails_at_startup_witness:
  "key_missing no_key_env
   \<and> fst (cli_main no_key_env \<lparr>arg_pdf_path = Some ''doc.pdf'', arg_output = ''outputs'', arg_web = False\<rparr>
           sample_world) = Exit 1
   \<and> calls (snd (cli_main no_key_env \<lparr>arg_pdf_path = Some ''doc.pdf'', arg_output = ''outputs'', arg_web = False\<rparr>
           sample_world)) = []
   \<and> fst (inference_with_api no_key_env ''imgs/doc/doc_page_1.png'' sample_world) = Inl ValueError
   \<and> fst (translateWithAPI no_key_env (PStr ''ni hao'') sample_world) = Inr (PStr ''ni hao'')"
  using missing_key_fails_at_startup [OF key_missing_no_key_env,
      of "\<lparr>arg_pdf_path = Some ''doc.pdf'', arg_output = ''outputs'', arg_web = False\<rparr>" sample_world
         "''imgs/doc/doc_page_1.png''" sample_world "PStr ''ni hao''"]
  by (simp add: key_missing_no_key_env sample_world_def)

text \<open>
  The claim denies the second half: no call is to react to the missing credential on its
  own. On the same page and text the two calls behave differently with and without it.
\<close>

theorem per_call_credential_check_counterexample:
  "fst (inference_with_api no_key_env ''imgs/doc/doc_page_1.png'' sample_world) = Inl ValueError
   \<and> fst (inference_with_api sample_env ''imgs/doc/doc_page_1.png'' sample_world) = Inr sample_payload
   \<and> fst (translateWithAPI no_key_env (PStr ''ni hao'') sample_world) = Inr (PStr ''ni hao'')
   \<and> fst (translateWithAPI sample_env (PStr ''ni hao'') sample_world) = Inr (PStr ''hello'')"
  by code_simp

section \<open>The fallback of the per-page operation\<close>

text \<open>
  Whenever the \<open>try\<close> body of \<open>main\<close> raises, \<open>main\<close> raises too: its handler reaches
  \<open>shutil.copy\<close>, and \<open>shutil\<close> is not among the names of the module (or, before
  that, the output directory cannot be made). No file is written.
\<close>

lemma shutil_unbound: "lookup_global ''shutil'' = Inl NameError"
  by (simp add: lookup_global_def qwen_utils_names_def)

lemma main_handler_raises:
  assumes "fst (main_attempt E image_path output_path pdf_name w) = Inl e"
  shows "\<exists>e'. fst (main E image_path output_path pdf_name w) = Inl e'
           \<and> files (snd (main E image_path output_path pdf_name w))
               = files (snd (main_attempt E image_path output_path pdf_name w))"
  using assms
  by (cases "main_attempt E image_path output_path pdf_name w")
     (auto simp: main_def shutil_copy_def shutil_unbound Let_def split: sum.splits)

text \<open>
  C1. The claim: when detection raises, \<open>main\<close> returns a path holding a copy of the
  source image and raises nothing. On the first sample page with the remote service out of
  reach, detection raises; the handler then raises \<open>NameError\<close>, \<open>main\<close> returns no
  path, and no file stands at the output path.
\<close>

theorem main_fallback_raises_name_error:
  "fst (inference_with_api offline_env ''imgs/doc/doc_page_1.png'' sample_world) = Inl APIError
   \<and> fst (main offline_env ''imgs/doc/doc_page_1.png'' None (Some ''doc'') sample_world) = Inl NameError
   \<and> files (snd (main offline_env ''imgs/doc/doc_page_1.png'' None (Some ''doc'') sample_world))
        ''outputs/doc/doc_page_1_translated.png'' = None"
  by code_simp

section \<open>The parser's fallback chain\<close>





section \<open>The loop over the records\<close>

lemma contains_object:
  "contains k (PDict kvs) = Inr (map_of kvs (PStr k) \<noteq> None)"
  by (auto simp: map_of_eq_None_iff image_iff)

lemma subscript_object:
  "map_of kvs (PStr k) = Some v \<Longrightarrow> subscript (PDict kvs) k = Inr v"
  by simp


lemma process_box_accepted:
  "accepted_bbox b = Some cs \<Longrightarrow>
   process_box E iw ih f b st =
     (case box_coords E cs iw ih (fst (img_size (snd st))) (snd (img_size (snd st))) of
        Inl e \<Rightarrow> (Inl e, st)
      | Inr (x1, y1, x2, y2) \<Rightarrow> draw_label E x1 y2 b f (fst st, draw_rectangle x1 y1 x2 y2 (snd st)))"
  by (cases b)
     (auto simp: process_box_def contains_object simp del: contains.simps
        split: option.splits pyval.splits if_splits)









text \<open>
  A component that is no number is outside the statement above: the division raises
  \<open>TypeError\<close>, which ends the loop, so the records after it are not drawn.
\<close>

lemma non_numeric_component_ends_loop:
  "fst (process_boxes sample_env 1024 1024 sample_font
     [PDict [(PStr ''bbox_2d'', PList [PStr ''10'', PInt 20, PInt 300, PInt 60])], sample_record]
     (sample_world, sample_image)) = Inl TypeError
   \<and> img_ops (snd (snd (process_boxes sample_env 1024 1024 sample_font
     [PDict [(PStr ''bbox_2d'', PList [PStr ''10'', PInt 20, PInt 300, PInt 60])], sample_record]
     (sample_world, sample_image)))) = []"
  by code_simp

text \<open>
  C8. A record that passes the guard, with coordinates and a text that is a non-empty
  string: when the translation call raises, the loop draws the rectangle and, below it at
  the box's left edge, the original text, and goes on with the next record.
\<close>

theorem translation_failure_draws_original:
  assumes "accepted_bbox b = Some cs"
    and "box_coords E cs iw ih (fst (img_size img)) (snd (img_size img)) = Inr (x1, y1, x2, y2)"
    and "record_text b = Some s"
    and "fst (translateWithAPI E (PStr s) w) = Inl e"
  shows "process_boxes E iw ih f (b # bs) (w, img) =
         process_boxes E iw ih f bs
           (say (Note_exn ''plot: translation or drawing failed'' e) (snd (translateWithAPI E (PStr s) w)),
            img\<lparr>img_ops := img_ops img @ [Rectangle x1 y1 x2 y2, Text x1 y2 s f]\<rparr>)"
proof -
  from assms(1) obtain kvs where b: "b = PDict kvs" by (cases b) auto
  with assms(3) have t: "map_of kvs (PStr ''text_content'') = Some (PStr s)" "s \<noteq> []"
    by (auto split: option.splits pyval.splits if_splits)
  obtain w1 where tr: "translateWithAPI E (PStr s) w = (Inl e, w1)"
    using assms(4) by (cases "translateWithAPI E (PStr s) w") auto
  have "draw_label E x1 y2 b f (w, draw_rectangle x1 y1 x2 y2 img) =
        (Inr (), say (Note_exn ''plot: translation or drawing failed'' e) w1,
         img\<lparr>img_ops := img_ops img @ [Rectangle x1 y1 x2 y2, Text x1 y2 s f]\<rparr>)"
    using b t tr
    by (simp add: draw_label_def contains_object draw_original_def draw_text_def draw_rectangle_def
          Let_def del: contains.simps)
  with assms(1,2) tr show ?thesis
    by (simp add: process_box_accepted)
qed

theorem translation_failure_draws_original_witness:
  "accepted_bbox sample_record = Some [PInt 10, PInt 20, PInt 300, PInt 60]
   \<and> record_text sample_record = Some ''ni hao''
   \<and> fst (translateWithAPI offline_env (PStr ''ni hao'') sample_world) = Inl APIError
   \<and> fst (process_boxes offline_env 1024 1024 sample_font [sample_record] (sample_world, sample_image)) = Inr ()
   \<and> img_ops (snd (snd (process_boxes offline_env 1024 1024 sample_font [sample_record]
        (sample_world, sample_image)))) = [Rectangle 10 20 300 60, Text 10 60 ''ni hao'' sample_font]"
proof -
  have a: "accepted_bbox sample_record = Some [PInt 10, PInt 20, PInt 300, PInt 60]"
    by code_simp
  have c: "box_coords offline_env [PInt 10, PInt 20, PInt 300, PInt 60] 1024 1024
             (fst (img_size sample_image)) (snd (img_size sample_image)) = Inr (10, 20, 300, 60)"
    by code_simp
  have t: "record_text sample_record = Some ''ni hao''"
    by code_simp
  have f: "fst (translateWithAPI offline_env (PStr ''ni hao'') sample_world) = Inl APIError"
    by code_simp
  have i: "img_ops sample_image = []"
    by (simp add: sample_image_def)
  from translation_failure_draws_original [OF a c t f, of sample_font "[]"] a t f i
  show ?thesis by simp
qed

section \<open>The code fence\<close>

lemma join_lines_Cons: "join_lines (l # ls) = l @ (if ls = [] then [] else CHR 0x0A # join_lines ls)"
  by (cases ls) auto

lemma linebreak_LF: "is_linebreak (CHR 0x0A)"
  by (simp add: is_linebreak_def code_def)

lemma linebreak_CR: "is_linebreak (CHR 0x0D)"
  by (simp add: is_linebreak_def code_def)

lemma backquote_no_linebreak: "\<not> is_linebreak (CHR 0x60)"
  by (simp add: is_linebreak_def code_def)

lemma splitlines_from_nonempty: "t \<noteq> [] \<Longrightarrow> splitlines_from cur t \<noteq> []"
  by (induction cur t rule: splitlines_from.induct) auto

lemma join_splitlines_from:
  "join_lines (splitlines_from cur t) = rev cur @ join_lines (splitlines_from [] t)"
proof (induction t arbitrary: cur rule: induct_list012)
  case 1
  then show ?case by simp
next
  case (2 c)
  then show ?case by simp
next
  case (3 c d cs)
  show ?case
  proof (cases "is_linebreak c")
    case True
    then show ?thesis by (simp add: join_lines_Cons)
  next
    case False
    then have "c \<noteq> CHR 0x0D" using linebreak_CR by auto
    with False show ?thesis
      using "3.IH"(2) [of "c # cur"] "3.IH"(2) [of "[c]"] by simp
  qed
qed

text \<open>Lines joined again: a text with no boundary but LF comes back as it was.\<close>

lemma join_splitlines_prefix:
  assumes "\<forall>c\<in>set p. is_linebreak c \<longrightarrow> c = CHR 0x0A" "t \<noteq> []"
  shows "join_lines (splitlines_from [] (p @ t)) = p @ join_lines (splitlines_from [] t)"
  using assms
proof (induction p)
  case Nil
  then show ?case by simp
next
  case (Cons c p)
  then obtain d cs where dcs: "p @ t = d # cs" by (cases "p @ t") auto
  have ih: "join_lines (splitlines_from [] (d # cs)) = p @ join_lines (splitlines_from [] t)"
    using Cons dcs by simp
  show ?case
  proof (cases "is_linebreak c")
    case True
    with Cons.prems have "c = CHR 0x0A" by simp
    then show ?thesis
      using ih dcs linebreak_LF splitlines_from_nonempty [of "d # cs" "[]"]
      by (simp add: join_lines_Cons)
  next
    case False
    then have "c \<noteq> CHR 0x0D" using linebreak_CR by auto
    with False show ?thesis
      using ih dcs join_splitlines_from [of "[c]" "d # cs"] by simp
  qed
qed

lemma splitlines_first_line:
  "\<forall>c\<in>set xs. \<not> is_linebreak c \<Longrightarrow>
   splitlines_from cur (xs @ CHR 0x0A # q) = (rev cur @ xs) # splitlines_from [] q"
proof (induction xs arbitrary: cur)
  case Nil
  then show ?case using linebreak_LF by (cases q) auto
next
  case (Cons c xs)
  obtain d cs where dcs: "xs @ CHR 0x0A # q = d # cs" by (cases "xs @ CHR 0x0A # q") auto
  from Cons.prems have "\<not> is_linebreak c" by simp
  moreover then have "c \<noteq> CHR 0x0D" using linebreak_CR by auto
  ultimately have "splitlines_from cur (c # d # cs) = splitlines_from (c # cur) (d # cs)" by simp
  with Cons dcs show ?case by simp
qed

lemma fence_json_no_linebreak: "\<forall>c\<in>set fence_json. \<not> is_linebreak c"
  by (simp add: fence_json_def is_linebreak_def code_def)

lemma parse_json_opener:
  "parse_json (fence_json @ CHR 0x0A # q) = before_fence (join_lines (splitlines q))"
  using splitlines_first_line [OF fence_json_no_linebreak, of "[]" q]
  by (simp add: parse_json_def splitlines_def)

lemma join_splitlines_fence:
  "join_lines (splitlines_from [] (fence @ u)) = fence @ join_lines (splitlines_from [] u)"
proof -
  have b: "CHR 0x60 \<noteq> CHR 0x0D" by simp
  show ?thesis
    using backquote_no_linebreak join_splitlines_from [of "[CHR 0x60, CHR 0x60, CHR 0x60]" u]
    by (cases u) (simp_all add: fence_def)
qed

text \<open>The cut at the first fence, when the payload has none and ends in no backquote.\<close>

lemma before_fence_payload:
  assumes "\<not> contains_str fence p" "p = [] \<or> last p \<noteq> CHR 0x60"
  shows "before_fence (p @ fence @ u) = p"
  using assms
proof (induction p)
  case Nil
  then show ?case by (simp add: fence_def)
next
  case (Cons a p)
  from Cons.prems have nf: "\<not> contains_str fence p"
    and nt: "take (length fence) (a # p) \<noteq> fence"
    by simp_all
  from Cons.prems have lp: "p = [] \<or> last p \<noteq> CHR 0x60" by (cases p) auto
  have ih: "before_fence (p @ fence @ u) = p" using Cons.IH nf lp by simp
  obtain b c cs where bc: "p @ fence @ u = b # c # cs"
    by (cases "p @ fence @ u"; cases "tl (p @ fence @ u)") (auto simp: fence_def)
  have "\<not> (a = CHR 0x60 \<and> b = CHR 0x60 \<and> c = CHR 0x60)"
  proof
    assume abc: "a = CHR 0x60 \<and> b = CHR 0x60 \<and> c = CHR 0x60"
    show False
    proof (cases p)
      case Nil
      with Cons.prems abc show False by simp
    next
      case (Cons p1 ps)
      note p = this
      show False
      proof (cases ps)
        case Nil
        with p bc abc Cons.prems show False by (auto simp: fence_def)
      next
        case (Cons p2 pss)
        with p bc abc nt show False by (auto simp: fence_def)
      qed
    qed
  qed
  with bc ih show ?case by auto
qed

lemma contains_str_infix: "contains_str k (a @ k @ b)"
proof (induction a)
  case Nil
  have "take (length k) (k @ b) = k" by simp
  then show ?case by (cases "k @ b") auto
next
  case (Cons x a)
  then show ?case by simp
qed

lemma contains_str_mono: "contains_str k s \<Longrightarrow> contains_str k (a @ s @ b)"
proof (induction s arbitrary: a)
  case Nil
  then show ?case using contains_str_infix [of "[]" a b] by simp
next
  case (Cons c s)
  show ?case
  proof (cases "take (length k) (c # s) = k")
    case True
    then have "c # s = k @ drop (length k) (c # s)" by (metis append_take_drop_id)
    then have "a @ (c # s) @ b = a @ k @ (drop (length k) (c # s) @ b)"
      by (metis append.assoc)
    then show ?thesis using contains_str_infix by metis
  next
    case False
    with Cons.prems have "contains_str k s" by simp
    from Cons.IH [OF this, of "a @ [c]"] show ?thesis by simp
  qed
qed

text \<open>Every line is a piece of the text.\<close>

lemma splitlines_from_infix:
  "l \<in> set (splitlines_from cur t) \<Longrightarrow> \<exists>a b. rev cur @ t = a @ l @ b"
proof (induction t arbitrary: cur rule: induct_list012)
  case 1
  then show ?case by (auto split: if_splits intro: exI [of _ "[]"])
next
  case (2 c)
  then show ?case
    by (auto split: if_splits intro: exI [of _ "[]"])
next
  case (3 c d cs)
  show ?case
  proof (cases "c = CHR 0x0D \<and> d = CHR 0x0A")
    case True
    with "3.prems" have "l = rev cur \<or> l \<in> set (splitlines_from [] cs)" by auto
    then show ?thesis
    proof
      assume "l = rev cur"
      then show ?thesis by (metis append_Nil)
    next
      assume "l \<in> set (splitlines_from [] cs)"
      from "3.IH"(1) [OF this] obtain a b where "cs = a @ l @ b" by auto
      then have "rev cur @ c # d # cs = (rev cur @ [c, d] @ a) @ l @ b" by simp
      then show ?thesis by blast
    qed
  next
    case False
    note nocrlf = this
    show ?thesis
    proof (cases "is_linebreak c")
      case True
      with nocrlf "3.prems" have "l = rev cur \<or> l \<in> set (splitlines_from [] (d # cs))" by auto
      then show ?thesis
      proof
        assume "l = rev cur"
        then show ?thesis by (metis append_Nil)
      next
        assume "l \<in> set (splitlines_from [] (d # cs))"
        from "3.IH"(2) [OF this] obtain a b where "d # cs = a @ l @ b" by auto
        then have "rev cur @ c # d # cs = (rev cur @ [c] @ a) @ l @ b" by simp
        then show ?thesis by blast
      qed
    next
      case False
      with nocrlf "3.prems" have "l \<in> set (splitlines_from (c # cur) (d # cs))" by auto
      from "3.IH"(2) [OF this] show ?thesis by simp
    qed
  qed
qed

lemma parse_json_unfenced:
  assumes "\<not> contains_str fence p"
  shows "parse_json p = p"
proof -
  have "\<forall>l\<in>set (splitlines p). l \<noteq> fence_json"
  proof
    fix l assume "l \<in> set (splitlines p)"
    then obtain a b where p: "p = a @ l @ b"
      using splitlines_from_infix [of l "[]" p] by (auto simp: splitlines_def)
    show "l \<noteq> fence_json"
    proof
      assume "l = fence_json"
      then have "p = a @ fence @ (''json'' @ b)" using p by (simp add: fence_json_def fence_def)
      with contains_str_infix [of fence a "''json'' @ b"] assms show False by simp
    qed
  qed
  then have dw: "dropWhile (\<lambda>line. line \<noteq> fence_json) (splitlines p) = []"
    by (simp add: dropWhile_eq_Nil_conv)
  show ?thesis unfolding parse_json_def dw by simp
qed

text \<open>
  C5. As the code has it: for a payload that holds no run of three backquotes, ends in no
  backquote and has no line boundary other than LF, the fenced response (opener line,
  payload, closer, anything after it) is cut back to exactly the payload, which is also
  what the payload alone is read as; so both parse to the same records.
\<close>

theorem fenced_payload_parses_identically:
  assumes "\<not> contains_str fence p"
    and "p = [] \<or> last p \<noteq> CHR 0x60"
    and "\<forall>c\<in>set p. is_linebreak c \<longrightarrow> c = CHR 0x0A"
  shows "parse_json (fenced p trailer) = p \<and> parse_json p = p
         \<and> parsed_boxes E (parse_json (fenced p trailer)) w = parsed_boxes E (parse_json p) w"
proof -
  have ne: "fence @ trailer \<noteq> []" by (simp add: fence_def)
  have "parse_json (fenced p trailer) = before_fence (join_lines (splitlines_from [] (p @ fence @ trailer)))"
    by (simp add: fenced_def parse_json_opener splitlines_def)
  also have "\<dots> = before_fence (p @ join_lines (splitlines_from [] (fence @ trailer)))"
    using join_splitlines_prefix [OF assms(3) ne] by simp
  also have "\<dots> = before_fence (p @ fence @ join_lines (splitlines_from [] trailer))"
    by (simp add: join_splitlines_fence)
  also have "\<dots> = p"
    using before_fence_payload [OF assms(1,2)] by simp
  finally have 1: "parse_json (fenced p trailer) = p" .
  have 2: "parse_json p = p" using parse_json_unfenced [OF assms(1)] .
  from 1 2 show ?thesis by simp
qed

theorem fenced_payload_parses_identically_witness:
  "\<not> contains_str fence sample_payload
   \<and> last sample_payload \<noteq> CHR 0x60
   \<and> list_all (\<lambda>c. \<not> is_linebreak c) sample_payload
   \<and> parse_json (fenced sample_payload (CHR 0x0A # ''Done.'')) = sample_payload
   \<and> fst (parsed_boxes sample_env (parse_json (fenced sample_payload (CHR 0x0A # ''Done.''))) sample_world)
       = Some (PList [sample_record])"
proof -
  have a: "\<not> contains_str fence sample_payload" by code_simp
  have b: "last sample_payload \<noteq> CHR 0x60" by code_simp
  have c: "list_all (\<lambda>c. \<not> is_linebreak c) sample_payload" by code_simp
  have d: "fst (parsed_boxes sample_env (parse_json sample_payload) sample_world) = Some (PList [sample_record])"
    by code_simp
  from c have c': "\<forall>c\<in>set sample_payload. is_linebreak c \<longrightarrow> c = CHR 0x0A"
    by (simp add: list_all_iff)
  from b have b': "sample_payload = [] \<or> last sample_payload \<noteq> CHR 0x60" by simp
  from fenced_payload_parses_identically [OF a b' c', of "CHR 0x0A # ''Done.''" sample_env sample_world]
    a b c d
  show ?thesis by simp
qed

text \<open>
  The claim is about every payload. A payload whose text holds three backquotes is valid
  JSON with one record; fenced, it is cut at those backquotes, the rest is no JSON and the
  scan finds nothing in it: no record.
\<close>

theorem fenced_backquote_payload_counterexample:
  "fst (parsed_boxes backquote_env (parse_json backquote_payload) sample_world) = Some (PList [backquote_record])
   \<and> fst (parsed_boxes backquote_env (parse_json (fenced backquote_payload [])) sample_world) = Some (PList [])
   \<and> parse_json (fenced backquote_payload []) = take 50 backquote_payload"
  by code_simp

section \<open>The batch and the order of its pages\<close>

lemma sequence_length: "sequence rs = Inr xs \<Longrightarrow> length xs = length rs"
  by (induction rs arbitrary: xs) (auto split: sum.splits)

lemma sequence_map_nth:
  "sequence (map f xs) = Inr ks \<Longrightarrow> i < length xs \<Longrightarrow> f (xs ! i) = Inr (ks ! i)"
proof (induction xs arbitrary: ks i)
  case Nil
  then show ?case by simp
next
  case (Cons x xs)
  then show ?case by (cases i) (auto split: sum.splits)
qed

lemma insort_lt_mset: "insort_lt p acc = Inr r \<Longrightarrow> mset r = add_mset p (mset acc)"
  by (induction acc arbitrary: r) (auto split: sum.splits bool.splits if_splits)

lemma sort_pairs_mset: "sort_pairs acc ps = Inr r \<Longrightarrow> mset r = mset acc + mset ps"
proof (induction ps arbitrary: acc r)
  case Nil
  then show ?case by simp
next
  case (Cons p ps)
  then show ?case by (auto split: sum.splits dest!: insort_lt_mset)
qed

text \<open>What \<open>sorted\<close> returns is a rearrangement of its argument.\<close>

lemma py_sorted_mset:
  assumes "py_sorted key xs = Inr ys"
  shows "mset ys = mset xs"
proof -
  from assms obtain ks where ks: "sequence (map key xs) = Inr ks"
    by (cases "sequence (map key xs)") (auto simp: py_sorted_def)
  with assms obtain r where r: "sort_pairs [] (zip ks xs) = Inr r" and ys: "ys = map snd r"
    by (cases "sort_pairs [] (zip ks xs)") (auto simp: py_sorted_def)
  from sequence_length [OF ks] have "length ks = length xs" by simp
  then have "map snd (zip ks xs) = xs" by simp
  moreover from sort_pairs_mset [OF r] have "mset (map snd r) = mset (map snd (zip ks xs))"
    by (metis add.left_neutral mset.simps(1) mset_map)
  ultimately show ?thesis using ys by simp
qed

lemma py_sorted_length: "py_sorted key xs = Inr ys \<Longrightarrow> length ys = length xs"
  by (metis py_sorted_mset size_mset)

lemma insort_lt_last:
  "list_all (\<lambda>q. key_lt (fst p) (fst q) = Inr False) acc \<Longrightarrow> insort_lt p acc = Inr (acc @ [p])"
  by (induction acc) auto

lemma key_sorted_append:
  "key_sorted (a @ b) =
     (key_sorted a \<and> key_sorted b \<and> (\<forall>x\<in>set a. \<forall>y\<in>set b. key_lt y x = Inr False))"
  by (induction a) (auto simp: list_all_iff)

lemma sort_pairs_sorted:
  "key_sorted (map fst (acc @ ps)) \<Longrightarrow> sort_pairs acc ps = Inr (acc @ ps)"
proof (induction ps arbitrary: acc)
  case Nil
  then show ?case by simp
next
  case (Cons p ps)
  from Cons.prems have "list_all (\<lambda>q. key_lt (fst p) (fst q) = Inr False) acc"
    by (auto simp: key_sorted_append list_all_iff)
  then have "insort_lt p acc = Inr (acc @ [p])" by (rule insort_lt_last)
  moreover from Cons.prems have "key_sorted (map fst ((acc @ [p]) @ ps))" by simp
  from Cons.IH [OF this] have "sort_pairs (acc @ [p]) ps = Inr (acc @ p # ps)" by simp
  ultimately show ?case by simp
qed

text \<open>Sorting a list whose keys are already in natural order returns it as it is.\<close>

lemma py_sorted_sorted:
  assumes "sequence (map key xs) = Inr ks" "key_sorted ks"
  shows "py_sorted key xs = Inr xs"
proof -
  from sequence_length [OF assms(1)] have l: "length ks = length xs" by simp
  then have "map fst (zip ks xs) = ks" "map snd (zip ks xs) = xs" by simp_all
  with assms(2) sort_pairs_sorted [of "[]" "zip ks xs"] have "sort_pairs [] (zip ks xs) = Inr (zip ks xs)"
    by simp
  with assms(1) \<open>map snd (zip ks xs) = xs\<close> show ?thesis by (simp add: py_sorted_def)
qed

text \<open>When \<open>main\<close> returns, it returns the output path derived from its arguments.\<close>

lemma save_image_path: "fst (save_image E img out w) = Inr p \<Longrightarrow> p = out"
  by (auto simp: save_image_def split: sum.splits)

lemma main_attempt_path:
  "fst (main_attempt E image_path output_path pdf_name w) = Inr p \<Longrightarrow>
   derive_output_path E image_path output_path pdf_name = Inr p"
  by (auto simp: main_attempt_def split: sum.splits prod.splits dest: save_image_path [of _ _ _ _ p])

lemma main_path:
  assumes "fst (main E image_path output_path pdf_name w) = Inr p"
  shows "derive_output_path E image_path output_path pdf_name = Inr p"
proof (cases "main_attempt E image_path output_path pdf_name w")
  case (Pair r w1)
  show ?thesis
  proof (cases r)
    case (Inl e)
    with Pair main_handler_raises [of E image_path output_path pdf_name w e] assms show ?thesis by auto
  next
    case (Inr q)
    with Pair assms have "q = p" by (simp add: main_def)
    with Pair Inr main_attempt_path [of E image_path output_path pdf_name w p] show ?thesis by simp
  qed
qed

lemma process_all_paths:
  "fst (process_all E pdf_name pages w) = Inr outs \<Longrightarrow>
   list_all2 (\<lambda>page out. derive_output_path E page None pdf_name = Inr out) pages outs"
proof (induction pages arbitrary: w outs)
  case Nil
  then show ?case by simp
next
  case (Cons page pages)
  obtain r w1 where m: "main E page None pdf_name w = (r, w1)" by (cases "main E page None pdf_name w")
  with Cons.prems obtain out where r: "r = Inr out" by (cases r) auto
  obtain r2 w2 where p: "process_all E pdf_name pages w1 = (r2, w2)"
    by (cases "process_all E pdf_name pages w1")
  with Cons.prems m r obtain rest where r2: "r2 = Inr rest" and outs: "outs = out # rest"
    by (cases r2) auto
  from main_path [of E page None pdf_name w out] m r
  have "derive_output_path E page None pdf_name = Inr out" by simp
  moreover from Cons.IH [of w1 rest] p r2
  have "list_all2 (\<lambda>page out. derive_output_path E page None pdf_name = Inr out) pages rest" by simp
  ultimately show ?case using outs by simp
qed

lemma batch_returns_page_outputs:
  assumes "py_sorted natural_sort_key image_paths = Inr pages"
    and "(if given pdf_name then makedirs E (path_join output_dir (the pdf_name)) else Inr ()) = Inr ()"
    and "fst (process_all E pdf_name pages w) = Inr outs"
    and "sequence (map natural_sort_key outs) = Inr ks"
    and "key_sorted ks"
  shows "fst (batch_process_images E image_paths pdf_name output_dir w) = Inr outs
         \<and> length outs = length image_paths
         \<and> mset pages = mset image_paths
         \<and> list_all2 (\<lambda>page out. derive_output_path E page None pdf_name = Inr out) pages outs"
proof -
  have s: "py_sorted natural_sort_key outs = Inr outs"
    using py_sorted_sorted [OF assms(4,5)] .
  obtain w1 where p: "process_all E pdf_name pages w = (Inr outs, w1)"
    using assms(3) by (cases "process_all E pdf_name pages w") auto
  have 1: "fst (batch_process_images E image_paths pdf_name output_dir w) = Inr outs"
    using assms(1,2) p s by (simp add: batch_process_images_def)
  have 2: "list_all2 (\<lambda>page out. derive_output_path E page None pdf_name = Inr out) pages outs"
    using process_all_paths [OF assms(3)] .
  have 3: "mset pages = mset image_paths"
    using py_sorted_mset [OF assms(1)] .
  have "length outs = length pages" using 2 by (simp add: list_all2_lengthD)
  also have "\<dots> = length image_paths" using py_sorted_length [OF assms(1)] .
  finally show ?thesis using 1 2 3 by simp
qed




section \<open>Geometry normalizer: the integer part\<close>

text \<open>
  Inside the interval the dimensions come back unchanged, and no float is computed.
  Outside it each dimension is scaled on its own, by the same bound and pixel count; the
  scaled values themselves are results of double-precision arithmetic, which this
  development takes as given (\<open>float_scaled\<close>).
\<close>

lemma smart_resize_in_range:
  "min_px \<le> height * width \<Longrightarrow> height * width \<le> max_px \<Longrightarrow>
   smart_resize E height width min_px max_px = Inr (height, width)"
  by (simp add: smart_resize_def)

lemma smart_resize_idempotent:
  "min_px \<le> height * width \<Longrightarrow> height * width \<le> max_px \<Longrightarrow>
   smart_resize E height width min_px max_px = Inr (h', w') \<Longrightarrow>
   smart_resize E h' w' min_px max_px = Inr (h', w')"
  by (simp add: smart_resize_def)

lemma smart_resize_below:
  "0 < height \<Longrightarrow> 0 < width \<Longrightarrow> height * width < min_px \<Longrightarrow> min_px \<le> max_px \<Longrightarrow>
   smart_resize E height width min_px max_px =
     (case float_scaled E height min_px (height * width) of
        Inl e \<Rightarrow> Inl e
      | Inr new_height \<Rightarrow>
          (case float_scaled E width min_px (height * width) of
             Inl e \<Rightarrow> Inl e
           | Inr new_width \<Rightarrow> Inr (new_height, new_width)))"
  by (simp add: smart_resize_def Let_def)

lemma smart_resize_above:
  "0 < height \<Longrightarrow> 0 < width \<Longrightarrow> max_px < height * width \<Longrightarrow> min_px \<le> max_px \<Longrightarrow>
   smart_resize E height width min_px max_px =
     (case float_scaled E height max_px (height * width) of
        Inl e \<Rightarrow> Inl e
      | Inr new_height \<Rightarrow>
          (case float_scaled E width max_px (height * width) of
             Inl e \<Rightarrow> Inl e
           | Inr new_width \<Rightarrow> Inr (new_height, new_width)))"
  by (simp add: smart_resize_def Let_def)

section \<open>Page names with a number\<close>

lemma takeWhile_text_append:
  "is_decimal (hd ds) \<Longrightarrow> ds \<noteq> [] \<Longrightarrow> \<forall>c\<in>set t. \<not> is_decimal c \<Longrightarrow>
   takeWhile (\<lambda>c. \<not> is_decimal c) (t @ ds @ u) = t
   \<and> dropWhile (\<lambda>c. \<not> is_decimal c) (t @ ds @ u) = ds @ u"
  by (cases ds) (auto simp: takeWhile_append2 dropWhile_append2)

lemma takeWhile_run_append:
  "list_all is_decimal ds \<Longrightarrow> u \<noteq> [] \<Longrightarrow> \<not> is_decimal (hd u) \<Longrightarrow>
   takeWhile is_decimal (ds @ u) = ds \<and> dropWhile is_decimal (ds @ u) = u"
  by (cases u) (auto simp: takeWhile_append2 dropWhile_append2 list_all_iff)

lemma natural_sort_key_plain_text:
  "\<forall>c\<in>set t. \<not> is_decimal c \<Longrightarrow> \<not> isdigit t \<Longrightarrow> natural_sort_key t = Inr [Txt (lower t)]"
  by (simp add: natural_sort_key_last key_item_plain)

text \<open>
  A name made of a prefix that ends in no digit, a run of digits and a suffix without
  digits: its key is the key of the prefix, the number, and the suffix.
\<close>

lemma natural_sort_key_numbered:
  assumes "pre \<noteq> []" "\<not> is_decimal (last pre)"
    and "ds \<noteq> []" "list_all is_decimal ds"
    and "\<forall>c\<in>set suf. \<not> is_decimal c" "\<not> isdigit suf" "suf \<noteq> []"
    and "natural_sort_key pre = Inr kp"
    and "length ds \<le> int_max_str_digits"
  shows "natural_sort_key (pre @ ds @ suf) = Inr (kp @ [Num (digits_value ds), Txt (lower suf)])"
  using assms(1,2,8)
proof (induction pre arbitrary: kp rule: re_split.induct)
  case (1 pre)
  let ?t = "takeWhile (\<lambda>c. \<not> is_decimal c) pre"
  let ?r = "dropWhile (\<lambda>c. \<not> is_decimal c) pre"
  have hd_ds: "is_decimal (hd ds)" using assms(3,4) by (cases ds) auto
  have hd_suf: "\<not> is_decimal (hd suf)" using assms(5,7) by (cases suf) auto
  have suf_key: "natural_sort_key suf = Inr [Txt (lower suf)]"
    using natural_sort_key_plain_text [OF assms(5,6)] .
  have ds_key: "key_item ds = Inr (Num (digits_value ds))"
    using key_item_run [OF assms(3,4,9)] .
  show ?case
  proof (cases "?r = []")
    case True
    then have nd: "\<forall>c\<in>set pre. \<not> is_decimal c" by simp
    from "1.prems"(3) obtain x where x: "key_item pre = Inr x" and kp: "kp = [x]"
      by (cases "key_item pre") (auto simp: natural_sort_key_last [OF nd])
    have tw: "takeWhile (\<lambda>c. \<not> is_decimal c) (pre @ ds @ suf) = pre"
      and dw: "dropWhile (\<lambda>c. \<not> is_decimal c) (pre @ ds @ suf) = ds @ suf"
      using takeWhile_text_append [OF hd_ds assms(3) nd] by simp_all
    have ne: "dropWhile (\<lambda>c. \<not> is_decimal c) (pre @ ds @ suf) \<noteq> []"
      using dw assms(3) by simp
    show ?thesis
      using natural_sort_key_more [OF ne] tw dw x kp suf_key ds_key
        takeWhile_run_append [OF assms(4,7) hd_suf]
      by simp
  next
    case False
    let ?d = "takeWhile is_decimal ?r"
    let ?pre' = "dropWhile is_decimal ?r"
    have last_r: "last pre = last ?r"
      using last_appendR [OF False, of ?t] by simp
    have pre'_ne: "?pre' \<noteq> []"
    proof
      assume a: "?pre' = []"
      have "\<forall>c\<in>set ?r. is_decimal c"
        using a dropWhile_eq_Nil_conv [of is_decimal ?r] by blast
      moreover have "last ?r \<in> set ?r" using False by (rule last_in_set)
      ultimately have "is_decimal (last ?r)" by blast
      then have "is_decimal (last pre)" by (simp only: last_r)
      with "1.prems"(2) show False by blast
    qed
    have "last ?r = last ?pre'"
      using last_appendR [OF pre'_ne, of ?d] by (simp only: takeWhile_dropWhile_id)
    then have "last pre = last ?pre'" by (simp only: last_r)
    with "1.prems"(2) have last': "\<not> is_decimal (last ?pre')" by metis
    from "1.prems"(3) obtain x n k' where x: "key_item ?t = Inr x"
      and n: "key_item ?d = Inr n"
      and k': "natural_sort_key ?pre' = Inr k'"
      and kp: "kp = x # n # k'"
      unfolding natural_sort_key_more [OF False] by (auto split: sum.splits)
    have ih: "natural_sort_key (?pre' @ ds @ suf) = Inr (k' @ [Num (digits_value ds), Txt (lower suf)])"
      using "1.IH" [OF refl refl False pre'_ne last' k'] .
    have hd_r: "is_decimal (hd ?r)" using False hd_dropWhile [of "\<lambda>c. \<not> is_decimal c" pre] by blast
    have hd_pre': "\<not> is_decimal (hd ?pre')" using pre'_ne hd_dropWhile [of is_decimal ?r] by blast
    from False obtain c where c: "c \<in> set pre" "\<not> \<not> is_decimal c"
      using dropWhile_eq_Nil_conv [of "\<lambda>c. \<not> is_decimal c" pre] by blast
    have tw: "takeWhile (\<lambda>c. \<not> is_decimal c) (pre @ ds @ suf) = ?t"
      using c by (rule takeWhile_append1)
    have dw: "dropWhile (\<lambda>c. \<not> is_decimal c) (pre @ ds @ suf) = ?r @ ds @ suf"
      using c by (rule dropWhile_append1)
    from pre'_ne obtain c' where c': "c' \<in> set ?r" "\<not> is_decimal c'"
      using dropWhile_eq_Nil_conv [of is_decimal ?r] by blast
    have tw2: "takeWhile is_decimal (?r @ ds @ suf) = ?d"
      using c' by (rule takeWhile_append1)
    have dw2: "dropWhile is_decimal (?r @ ds @ suf) = ?pre' @ ds @ suf"
      using c' by (rule dropWhile_append1)
    have ne: "dropWhile (\<lambda>c. \<not> is_decimal c) (pre @ ds @ suf) \<noteq> []"
      using dw False by simp
    show ?thesis
      using natural_sort_key_more [OF ne] tw dw tw2 dw2 x n ih kp by simp
  qed
qed

lemma key_lt_append: "key_lt (k @ a) (k @ b) = key_lt a b"
  by (induction k) auto

lemma key_lt_numbered:
  "key_lt (k @ [Num m, Txt s]) (k @ [Num n, Txt s]) = Inr (m < n)"
  by (simp add: key_lt_append)

text \<open>
  Sorting names whose keys compare as their numbers do: the result is the list of names in
  ascending order of the numbers.
\<close>

lemma insort_lt_map:
  assumes "\<forall>e\<in>set acc. key_lt (k d) (k e) = Inr (f d < (f e :: int))" "sorted (map f acc)"
  shows "\<exists>acc'. insort_lt (k d, h d) (map (\<lambda>e. (k e, h e)) acc) = Inr (map (\<lambda>e. (k e, h e)) acc')
           \<and> sorted (map f acc') \<and> mset acc' = add_mset d (mset acc)"
  using assms
proof (induction acc)
  case Nil
  show ?case by (rule exI [of _ "[d]"]) simp
next
  case (Cons e acc)
  show ?case
  proof (cases "f d < (f e :: int)")
    case True
    with Cons.prems show ?thesis
      by (intro exI [of _ "d # e # acc"]) auto
  next
    case False
    from Cons.prems have "\<forall>e\<in>set acc. key_lt (k d) (k e) = Inr (f d < f e)" "sorted (map f acc)"
      by simp_all
    from Cons.IH [OF this] obtain acc' where
      a: "insort_lt (k d, h d) (map (\<lambda>e. (k e, h e)) acc) = Inr (map (\<lambda>e. (k e, h e)) acc')"
      and s: "sorted (map f acc')" and m: "mset acc' = add_mset d (mset acc)" by blast
    from m have "set acc' = insert d (set acc)" by (metis set_mset_add_mset_insert set_mset_mset)
    with Cons.prems False s have "sorted (map f (e # acc'))" by auto
    with Cons.prems False a m show ?thesis
      by (intro exI [of _ "e # acc'"]) auto
  qed
qed

lemma sort_pairs_map:
  assumes "\<forall>d\<in>set (acc @ ds). \<forall>e\<in>set (acc @ ds). key_lt (k d) (k e) = Inr (f d < (f e :: int))"
    and "sorted (map f acc)"
  shows "\<exists>r. sort_pairs (map (\<lambda>e. (k e, h e)) acc) (map (\<lambda>e. (k e, h e)) ds) = Inr (map (\<lambda>e. (k e, h e)) r)
           \<and> sorted (map f r) \<and> mset r = mset acc + mset ds"
  using assms
proof (induction ds arbitrary: acc)
  case Nil
  then show ?case by (intro exI [of _ acc]) simp
next
  case (Cons d ds)
  from Cons.prems have "\<forall>e\<in>set acc. key_lt (k d) (k e) = Inr (f d < f e)" by simp
  from insort_lt_map [OF this Cons.prems(2), of h] obtain acc' where
    a: "insort_lt (k d, h d) (map (\<lambda>e. (k e, h e)) acc) = Inr (map (\<lambda>e. (k e, h e)) acc')"
    and s: "sorted (map f acc')" and m: "mset acc' = add_mset d (mset acc)" by blast
  from m have "set acc' = insert d (set acc)" by (metis set_mset_add_mset_insert set_mset_mset)
  with Cons.prems have "\<forall>d\<in>set (acc' @ ds). \<forall>e\<in>set (acc' @ ds). key_lt (k d) (k e) = Inr (f d < f e)"
    by simp
  from Cons.IH [OF this s] obtain r where
    "sort_pairs (map (\<lambda>e. (k e, h e)) acc') (map (\<lambda>e. (k e, h e)) ds) = Inr (map (\<lambda>e. (k e, h e)) r)"
    "sorted (map f r)" "mset r = mset acc' + mset ds" by blast
  with a m show ?case by (intro exI [of _ r]) simp
qed

lemma sequence_map_Inr: "\<forall>x\<in>set xs. g x = Inr (k x) \<Longrightarrow> sequence (map g xs) = Inr (map k xs)"
  by (induction xs) auto

lemma py_sorted_by_number:
  assumes "\<forall>d\<in>set ds. key (h d) = Inr (k d)"
    and "\<forall>d\<in>set ds. \<forall>e\<in>set ds. key_lt (k d) (k e) = Inr (f d < (f e :: int))"
  shows "\<exists>r. py_sorted key (map h ds) = Inr (map h r) \<and> sorted (map f r) \<and> mset r = mset ds"
proof -
  have "sequence (map key (map h ds)) = Inr (map k ds)"
    using sequence_map_Inr [of ds "\<lambda>d. key (h d)" k] assms(1) by (simp add: comp_def)
  moreover have "zip (map k ds) (map h ds) = map (\<lambda>e. (k e, h e)) ds"
    by (induction ds) auto
  moreover from sort_pairs_map [of "[]" ds k f h] assms(2) obtain r where
    "sort_pairs [] (map (\<lambda>e. (k e, h e)) ds) = Inr (map (\<lambda>e. (k e, h e)) r)"
    "sorted (map f r)" "mset r = mset ds" by auto
  ultimately show ?thesis
    by (intro exI [of _ r]) (simp add: py_sorted_def comp_def)
qed

text \<open>The paths of a page image and of its annotated image, taken apart.\<close>

lemma path_join_append: "b \<noteq> [] \<Longrightarrow> path_join a (b @ c) = path_join a b @ c"
  by (simp add: path_join_def)

lemma basename_join:
  assumes "CHR ''/'' \<notin> set f" "f \<noteq> []"
  shows "basename (path_join dir f) = f"
proof -
  from assms have hd: "hd f \<noteq> CHR ''/''" by (cases f) auto
  have nf: "takeWhile (\<lambda>c. c \<noteq> CHR ''/'') (rev f @ ys) = rev f @ takeWhile (\<lambda>c. c \<noteq> CHR ''/'') ys" for ys
    by (rule takeWhile_append2) (use assms(1) in auto)
  show ?thesis
  proof (cases "dir = [] \<or> last dir = CHR ''/''")
    case True
    then have "takeWhile (\<lambda>c. c \<noteq> CHR ''/'') (rev dir) = []"
      by (cases dir rule: rev_cases) auto
    with True hd assms(2) show ?thesis
      by (simp add: path_join_def basename_def nf)
  next
    case False
    with hd assms(2) show ?thesis
      by (simp add: path_join_def basename_def nf)
  qed
qed

lemma splitext_png:
  assumes "CHR ''/'' \<notin> set stem" "\<not> list_all (\<lambda>c. c = CHR ''.'') stem"
  shows "splitext (stem @ ''.png'') = (stem, ''.png'')"
proof -
  have "\<forall>c\<in>set (rev (stem @ ''.png'')). c \<noteq> CHR ''/''"
    using assms(1) by auto
  then have "takeWhile (\<lambda>c. c \<noteq> CHR ''/'') (rev (stem @ ''.png'')) = rev (stem @ ''.png'')"
    by (rule takeWhile_eq_all_conv [THEN iffD2])
  then have b: "basename (stem @ ''.png'') = stem @ ''.png''"
    by (simp only: basename_def rev_rev_ident)
  show ?thesis using assms(2) by (simp add: splitext_def b Let_def)
qed

lemma slash_not_decimal: "\<not> is_decimal (CHR ''/'')"
  by (simp add: is_decimal_def code_def)

lemma derive_output_path_page:
  assumes "CHR ''/'' \<notin> set name" "list_all is_decimal ds" "pdf \<noteq> []"
    and "derive_output_path E (page_image dir name ds) None (Some pdf) = Inr out"
  shows "out = translated_image pdf name ds"
proof -
  define stem where "stem = name @ ''_page_'' @ ds"
  have pi: "page_image dir name ds = path_join dir (stem @ ''.png'')"
    and ti: "translated_image pdf name ds = path_join (path_join ''outputs'' pdf) (stem @ ''_translated.png'')"
    by (simp_all add: stem_def page_image_def translated_image_def)
  have ns: "CHR ''/'' \<notin> set (stem @ ''.png'')"
    using assms(1,2) slash_not_decimal by (auto simp: list_all_iff stem_def)
  then have ns': "CHR ''/'' \<notin> set stem" by simp
  have nd: "\<not> list_all (\<lambda>c. c = CHR ''.'') stem" by (simp add: stem_def)
  have b: "basename (path_join dir (stem @ ''.png'')) = stem @ ''.png''"
    using basename_join [OF ns, of dir] by simp
  have s: "splitext (stem @ ''.png'') = (stem, ''.png'')"
    using splitext_png [OF ns' nd] .
  from assms(3,4) show ?thesis
    unfolding pi ti
    by (simp add: derive_output_path_def given_def Let_def b s split: sum.splits)
qed

text \<open>
  The pages of one document under the rasterizer's names, in any order. Sorting them by
  natural key puts them in ascending order of their page numbers; and when every page's
  \<open>main\<close> returns, the batch returns the annotated images in that same order, page by
  page.
\<close>

lemma last_path_join: "b \<noteq> [] \<Longrightarrow> last (path_join a b) = last b"
  by (simp add: path_join_def)

lemma path_join_nonempty: "b \<noteq> [] \<Longrightarrow> path_join a b \<noteq> []"
  by (simp add: path_join_def)

lemma key_sorted_numbers:
  "sorted (map f r) \<Longrightarrow> key_sorted (map (\<lambda>d. kp @ [Num (f d), Txt s]) r)"
  by (induction r) (auto simp: list_all_iff key_lt_append)

lemma list_all2_map_eq:
  "list_all2 (\<lambda>x y. y = g x) xs ys \<Longrightarrow> ys = map g xs"
  by (induction xs ys rule: list_all2_induct) auto

lemma list_all2_mono_set:
  "list_all2 P xs ys \<Longrightarrow> (\<And>x y. x \<in> set xs \<Longrightarrow> P x y \<Longrightarrow> Q x y) \<Longrightarrow> list_all2 Q xs ys"
  by (induction xs ys rule: list_all2_induct) auto

lemma numbered_key:
  assumes "ds \<noteq> []" "list_all is_decimal ds"
    and "natural_sort_key (path_join a (name @ ''_page_'')) = Inr kp"
    and "\<forall>c\<in>set suf. \<not> is_decimal c" "\<not> isdigit suf" "suf \<noteq> []"
    and "length ds \<le> int_max_str_digits"
  shows "natural_sort_key (path_join a (name @ ''_page_'' @ ds @ suf))
           = Inr (kp @ [Num (digits_value ds), Txt (lower suf)])"
proof -
  let ?pre = "path_join a (name @ ''_page_'')"
  have ne: "name @ ''_page_'' \<noteq> []" by simp
  have 1: "?pre \<noteq> []" using path_join_nonempty [OF ne] .
  have "last ?pre = CHR ''_''" using last_path_join [OF ne, of a] by simp
  then have 2: "\<not> is_decimal (last ?pre)" by (simp add: is_decimal_def code_def)
  have "path_join a (name @ ''_page_'' @ ds @ suf) = ?pre @ ds @ suf"
    using path_join_append [OF ne, of a "ds @ suf"] by simp
  then show ?thesis
    using natural_sort_key_numbered [OF 1 2 assms(1,2,4,5,6,3,7)] by simp
qed

lemma rasterized_pages_in_order:
  assumes dss: "\<forall>ds\<in>set dss. ds \<noteq> [] \<and> list_all is_decimal ds \<and> length ds \<le> int_max_str_digits"
    and name: "CHR ''/'' \<notin> set name" and pdf: "pdf \<noteq> []"
    and kin: "natural_sort_key (path_join dir (name @ ''_page_'')) = Inr kin"
    and kout: "natural_sort_key (path_join (path_join ''outputs'' pdf) (name @ ''_page_'')) = Inr kout"
    and mk: "makedirs E (path_join output_dir pdf) = Inr ()"
  shows "\<exists>page_numbers.
           mset page_numbers = mset dss \<and> sorted (map digits_value page_numbers)
         \<and> py_sorted natural_sort_key (map (page_image dir name) dss)
             = Inr (map (page_image dir name) page_numbers)
         \<and> (\<forall>outs. fst (process_all E (Some pdf) (map (page_image dir name) page_numbers) w) = Inr outs \<longrightarrow>
                outs = map (translated_image pdf name) page_numbers
              \<and> fst (batch_process_images E (map (page_image dir name) dss) (Some pdf) output_dir w) = Inr outs)"
proof -
  have png: "\<forall>c\<in>set ''.png''. \<not> is_decimal c" "\<not> isdigit ''.png''" "''.png'' \<noteq> []"
    "lower ''.png'' = ''.png''"
    by (simp_all add: is_decimal_def isdigit_def is_digit_char_def lower_def lower_char_def code_def)
  have tpng: "\<forall>c\<in>set ''_translated.png''. \<not> is_decimal c" "\<not> isdigit ''_translated.png''"
    "''_translated.png'' \<noteq> []" "lower ''_translated.png'' = ''_translated.png''"
    by (simp_all add: is_decimal_def isdigit_def is_digit_char_def lower_def lower_char_def code_def)
  let ?k = "\<lambda>ds. kin @ [Num (digits_value ds), Txt ''.png'']"
  let ?k' = "\<lambda>ds. kout @ [Num (digits_value ds), Txt ''_translated.png'']"
  have key_in: "natural_sort_key (page_image dir name ds) = Inr (?k ds)" if "ds \<in> set dss" for ds
    using numbered_key [OF _ _ kin png(1,2,3), of ds] that dss png(4) by (simp add: page_image_def)
  have key_out: "natural_sort_key (translated_image pdf name ds) = Inr (?k' ds)" if "ds \<in> set dss" for ds
    using numbered_key [OF _ _ kout tpng(1,2,3), of ds] that dss tpng(4) by (simp add: translated_image_def)
  have "\<forall>d\<in>set dss. natural_sort_key (page_image dir name d) = Inr (?k d)"
    using key_in by blast
  moreover have "\<forall>d\<in>set dss. \<forall>e\<in>set dss. key_lt (?k d) (?k e) = Inr (digits_value d < digits_value e)"
    by (simp add: key_lt_append)
  ultimately obtain r where r: "py_sorted natural_sort_key (map (page_image dir name) dss)
        = Inr (map (page_image dir name) r)"
    and sr: "sorted (map digits_value r)" and mr: "mset r = mset dss"
    using py_sorted_by_number [of dss natural_sort_key "page_image dir name" ?k digits_value] by blast
  from mr have set_r: "set r = set dss" by (metis set_mset_mset)
  have "outs = map (translated_image pdf name) r
        \<and> fst (batch_process_images E (map (page_image dir name) dss) (Some pdf) output_dir w) = Inr outs"
    if outs: "fst (process_all E (Some pdf) (map (page_image dir name) r) w) = Inr outs" for outs
  proof -
    from process_all_paths [OF outs]
    have "list_all2 (\<lambda>ds out. derive_output_path E (page_image dir name ds) None (Some pdf) = Inr out) r outs"
      by (simp add: list_all2_map1)
    then have "list_all2 (\<lambda>ds out. out = translated_image pdf name ds) r outs"
    proof (rule list_all2_mono_set)
      fix ds out
      assume "ds \<in> set r" "derive_output_path E (page_image dir name ds) None (Some pdf) = Inr out"
      with dss set_r show "out = translated_image pdf name ds"
        using derive_output_path_page [OF name _ pdf, of ds E dir out] by blast
    qed
    then have eq: "outs = map (translated_image pdf name) r" by (rule list_all2_map_eq)
    have "sequence (map natural_sort_key outs) = Inr (map ?k' r)"
      unfolding eq using sequence_map_Inr [of r "\<lambda>d. natural_sort_key (translated_image pdf name d)" ?k']
        key_out set_r by (simp add: comp_def)
    moreover have "key_sorted (map ?k' r)" using key_sorted_numbers [OF sr] .
    moreover have "(if given (Some pdf) then makedirs E (path_join output_dir (the (Some pdf))) else Inr ()) = Inr ()"
      using pdf mk by (simp add: given_def)
    ultimately have "fst (batch_process_images E (map (page_image dir name) dss) (Some pdf) output_dir w) = Inr outs"
      using batch_returns_page_outputs [OF r _ outs] by blast
    with eq show ?thesis by simp
  qed
  with r sr mr show ?thesis by blast
qed

end
